theory Spec2Isabelle
  imports Main "HOL-Library.Word"
begin

unbundle bit_operations_syntax

chapter \<open>The program\<close>

section \<open>JavaScript primitives used by the sources\<close>

text \<open>
  JavaScript strings are modelled as \<open>string\<close> (lists of 8-bit characters): every test the
  sources make on a character is a test on an ASCII character, and all other characters
  are only copied.
\<close>

text \<open>\<^verbatim>\<open>`${n}`\<close> for a non-negative integer \<open>n\<close>: its decimal numeral.\<close>

definition digit_char :: "nat \<Rightarrow> char" where
  "digit_char d = ''0123456789'' ! d"

fun string_of_nat :: "nat \<Rightarrow> string" where
  "string_of_nat n =
     (if n < 10 then [digit_char n] else string_of_nat (n div 10) @ [digit_char (n mod 10)])"

declare string_of_nat.simps [simp del]

text \<open>\<^verbatim>\<open>String.prototype.endsWith\<close>.\<close>

definition endsWith :: "string \<Rightarrow> string \<Rightarrow> bool" where
  "endsWith s suffix =
     (length suffix \<le> length s \<and> drop (length s - length suffix) s = suffix)"

text \<open>\<^verbatim>\<open>String.prototype.indexOf\<close> for a one-character pattern; \<open>-1\<close> when absent.\<close>

fun indexOf :: "string \<Rightarrow> char \<Rightarrow> int" where
  "indexOf [] c = -1"
| "indexOf (x # xs) c =
     (if x = c then 0 else (let i = indexOf xs c in if i = -1 then -1 else i + 1))"

section \<open>node:path (POSIX)\<close>

text \<open>
  \<open>basename\<close>, \<open>dirname\<close> and \<open>join\<close> are imported from \<^verbatim>\<open>node:path\<close>, which is not part of
  the repository. They are modelled here after the behaviour of Node's POSIX
  implementation: the separator is \<open>/\<close>.

  \<open>basename\<close>: trailing separators are ignored, the result is the last segment.
\<close>

definition is_sep :: "char \<Rightarrow> bool" where
  "is_sep c = (c = CHR ''/'')"

definition basename :: "string \<Rightarrow> string" where
  "basename p = rev (takeWhile (\<lambda>c. \<not> is_sep c) (dropWhile is_sep (rev p)))"

text \<open>
  \<open>dirname\<close>: the empty path gives \<open>.\<close>. Otherwise trailing separators and the last segment
  are dropped; \<open>end\<close> is the index of the separator in front of the last segment. Node
  scans the indices \<open>length - 1\<close> down to \<open>1\<close> only, so a separator at index \<open>0\<close> is never
  found: then the result is \<open>/\<close> for a rooted path and \<open>.\<close> otherwise. A rooted path with
  \<open>end = 1\<close> gives \<open>//\<close>.
\<close>

definition dirname :: "string \<Rightarrow> string" where
  "dirname p =
     (if p = [] then ''.''
      else (let hasRoot = is_sep (hd p);
                upto_sep = dropWhile (\<lambda>c. \<not> is_sep c) (dropWhile is_sep (rev p))
            in if length upto_sep \<le> 1 then (if hasRoot then ''/'' else ''.'')
               else if hasRoot \<and> length upto_sep - 1 = 1 then ''//''
               else take (length upto_sep - 1) p))"

text \<open>
  \<open>normalize\<close>: the path is cut at its separators; empty segments and \<open>.\<close> are dropped, \<open>..\<close>
  removes the segment before it (or is kept at the front of a relative path, dropped at
  the root), the rest is joined by single separators. A leading and a trailing separator
  are kept.
\<close>

fun split_sep :: "string \<Rightarrow> string list" where
  "split_sep [] = [[]]"
| "split_sep (c # cs) =
     (if is_sep c then [] # split_sep cs
      else (case split_sep cs of [] \<Rightarrow> [[c]] | s # ss \<Rightarrow> (c # s) # ss))"

fun join_sep :: "string list \<Rightarrow> string" where
  "join_sep [] = []"
| "join_sep [s] = s"
| "join_sep (s # t # ss) = s @ CHR ''/'' # join_sep (t # ss)"

definition normalizeString_step :: "bool \<Rightarrow> string list \<Rightarrow> string \<Rightarrow> string list" where
  "normalizeString_step allowAboveRoot res seg =
     (if seg = [] \<or> seg = ''.'' then res
      else if seg = ''..'' then
        (if res \<noteq> [] \<and> last res \<noteq> ''..'' then butlast res
         else if allowAboveRoot then res @ [''..'']
         else res)
      else res @ [seg])"

definition normalizeString :: "string \<Rightarrow> bool \<Rightarrow> string" where
  "normalizeString path allowAboveRoot =
     join_sep (foldl (normalizeString_step allowAboveRoot) [] (split_sep path))"

definition path_normalize :: "string \<Rightarrow> string" where
  "path_normalize path =
     (if path = [] then ''.''
      else (let isAbsolute = is_sep (hd path);
                trailingSeparator = is_sep (last path);
                p = normalizeString path (\<not> isAbsolute)
            in if p = [] then (if isAbsolute then ''/'' else if trailingSeparator then ''./'' else ''.'')
               else (if isAbsolute then ''/'' else []) @ p @ (if trailingSeparator then ''/'' else [])))"

text \<open>\<open>join(a, b)\<close>: the non-empty arguments joined by \<open>/\<close>, then normalized.\<close>

definition path_join :: "string \<Rightarrow> string \<Rightarrow> string" where
  "path_join a b =
     (let joined = (if a = [] then b else if b = [] then a else a @ CHR ''/'' # b)
      in if joined = [] then ''.'' else path_normalize joined)"

section \<open>normalize.ts\<close>

text \<open>
  The character classes of the two regular expressions. Both carry the flag \<open>i\<close>, so
  \<^verbatim>\<open>[a-f0-9]\<close> accepts the hexadecimal digits in either case and \<^verbatim>\<open>[a-z]\<close> every ASCII
  letter in either case.
\<close>

definition is_hex :: "char \<Rightarrow> bool" where
  "is_hex c = (c \<in> set ''0123456789abcdefABCDEF'')"

definition is_alpha :: "char \<Rightarrow> bool" where
  "is_alpha c = (c \<in> set ''abcdefghijklmnopqrstuvwxyzABCDEFGHIJKLMNOPQRSTUVWXYZ'')"

text \<open>
  \<^verbatim>\<open>/([-.])[a-f0-9]{8,}(\.[a-z]+)$/i\<close>, tried at the start of \<open>s\<close>. The greedy \<^verbatim>\<open>{8,}\<close> takes
  the whole run of hex digits; giving characters back cannot help, because the next
  character has to be \<open>.\<close>. What follows the run must be \<open>.\<close> and letters up to the end of
  the input. The result holds the groups \<open>$1\<close> and \<open>$2\<close>.
\<close>

definition ext_to_end :: "string \<Rightarrow> bool" where
  "ext_to_end r =
     (case r of [] \<Rightarrow> False | d # e \<Rightarrow> d = CHR ''.'' \<and> e \<noteq> [] \<and> list_all is_alpha e)"

definition hash_match :: "string \<Rightarrow> (char \<times> string) option" where
  "hash_match s =
     (case s of
        [] \<Rightarrow> None
      | d # rest \<Rightarrow>
          if (d = CHR ''-'' \<or> d = CHR ''.'') \<and> 8 \<le> length (takeWhile is_hex rest)
             \<and> ext_to_end (dropWhile is_hex rest)
          then Some (d, dropWhile is_hex rest)
          else None)"

text \<open>
  \<^verbatim>\<open>base.replace(/([-.])[a-f0-9]{8,}(\.[a-z]+)$/i, "$1*$2")\<close>: the leftmost match is
  replaced (it reaches the end of the input); without a match the string is returned as
  it is.
\<close>

fun replace_hash :: "string \<Rightarrow> string" where
  "replace_hash [] = []"
| "replace_hash (c # cs) =
     (case hash_match (c # cs) of
        Some (d, ext) \<Rightarrow> d # CHR ''*'' # ext
      | None \<Rightarrow> c # replace_hash cs)"

text \<open>
  \<^verbatim>\<open>base.replace(/[a-f0-9]{8,}/gi, "*")\<close>: at each position the greedy match takes the run of
  hex digits that starts there; a run of eight or more is replaced and the scan goes on
  behind it, otherwise the character is copied and the scan moves one character on.
\<close>

function replace_all_hex :: "string \<Rightarrow> string" where
  "replace_all_hex [] = []"
| "replace_all_hex (c # cs) =
     (if 8 \<le> length (takeWhile is_hex (c # cs))
      then CHR ''*'' # replace_all_hex (dropWhile is_hex (c # cs))
      else c # replace_all_hex cs)"
  by pat_completeness auto
termination
  by (relation "measure length") (auto simp: length_dropWhile_le le_imp_less_Suc split: if_splits)

text \<open>
  \<^verbatim>\<open>
  export const normalizeAssetName = (name: string): string => {
    const dir = dirname(name);
    const base = basename(name);
    const normalized = base.replace(/([-.])[a-f0-9]{8,}(\.[a-z]+)$/i, "$1*$2");
    if (normalized !== base) {
      return dir === "." ? normalized : join(dir, normalized);
    }
    const fallback = base.replace(/[a-f0-9]{8,}/gi, "*");
    return dir === "." ? fallback : join(dir, fallback);
  };
  \<close>
\<close>

definition normalizeAssetName :: "string \<Rightarrow> string" where
  "normalizeAssetName name =
     (let dir = dirname name;
          base = basename name;
          normalized = replace_hash base
      in if normalized \<noteq> base
         then (if dir = ''.'' then normalized else path_join dir normalized)
         else (let fallback = replace_all_hex base
               in if dir = ''.'' then fallback else path_join dir fallback))"

section \<open>compress.ts\<close>

type_synonym bytes = "8 word list"

text \<open>
  \<^verbatim>\<open>const COMPRESSIBLE = /\.(css|html|json|js|mjs|svg|txt|xml|xhtml)$/;\<close>
  \<open>COMPRESSIBLE.test(fileName)\<close> holds when the file name ends in \<open>.\<close> and one of the
  alternatives.
\<close>

definition COMPRESSIBLE_alternatives :: "string list" where
  "COMPRESSIBLE_alternatives =
     [''css'', ''html'', ''json'', ''js'', ''mjs'', ''svg'', ''txt'', ''xml'', ''xhtml'']"

definition COMPRESSIBLE_test :: "string \<Rightarrow> bool" where
  "COMPRESSIBLE_test fileName =
     list_ex (\<lambda>alt. endsWith fileName (CHR ''.'' # alt)) COMPRESSIBLE_alternatives"

text \<open>
  \<^verbatim>\<open>
  export const getGzipSize = (fileName: string, content: Uint8Array): number | null => {
    if (!COMPRESSIBLE.test(fileName)) { return null; }
    return gzipSync(content).byteLength;
  };
  \<close>
  \<open>gzipSync\<close> is zlib's encoder, outside the repository. What it returns is one gzip
  member (RFC 1952), the "gzip header overhead" of \<^verbatim>\<open>compress.test.ts\<close>: the ten header
  bytes (the magic number \<open>1f 8b\<close>, the method 8 for deflate, no flags, no modification
  time, no extra flags, the operating system), the deflate stream of the content, and
  the CRC-32 and the length of the content, four bytes each, least significant byte
  first. The deflate encoder, the CRC-32 and the byte naming the operating system are
  parameters of the model.
\<close>

record zlib =
  deflate :: "bytes \<Rightarrow> bytes"
  crc32 :: "bytes \<Rightarrow> 32 word"
  OS_CODE :: "8 word"

definition le32 :: "32 word \<Rightarrow> bytes" where
  "le32 v = [ucast v, ucast (drop_bit 8 v), ucast (drop_bit 16 v), ucast (drop_bit 24 v)]"

definition gzipSync :: "zlib \<Rightarrow> bytes \<Rightarrow> bytes" where
  "gzipSync Z content =
     [0x1f, 0x8b, 8, 0, 0, 0, 0, 0, 0, OS_CODE Z]
     @ deflate Z content
     @ le32 (crc32 Z content)
     @ le32 (of_nat (length content))"

definition getGzipSize :: "zlib \<Rightarrow> string \<Rightarrow> bytes \<Rightarrow> nat option" where
  "getGzipSize Z fileName content =
     (if \<not> COMPRESSIBLE_test fileName then None
      else Some (length (gzipSync Z content)))"

section \<open>types.ts\<close>

text \<open>
  The interfaces of \<^verbatim>\<open>types.ts\<close> as records. A JavaScript \<open>number\<close> that is only copied
  (sizes, time stamps) is an \<open>int\<close>; an optional field is an \<open>option\<close>. A
  \<^verbatim>\<open>Record<string, T>\<close> is held as the list \<^verbatim>\<open>Object.entries\<close> gives for it, in
  enumeration order; an object has each key once, so the keys of such a list are distinct.
\<close>

record InputImport =
  input_import_path :: string
  input_import_kind :: string
  input_import_original :: "string option"

record MetafileInput =
  input_bytes :: int
  input_imports :: "InputImport list"
  input_format :: "string option"

record OutputImport =
  import_path :: string
  import_kind :: string
  import_original :: "string option"
  import_external :: "bool option"

record MetafileOutput =
  output_bytes :: int
  output_inputs :: "(string \<times> int) list"
  output_imports :: "OutputImport list"
  output_exports :: "string list"
  entryPoint :: "string option"

record Metafile =
  inputs :: "(string \<times> MetafileInput) list"
  outputs :: "(string \<times> MetafileOutput) list"

record Asset =
  asset_name :: string
  asset_size :: int
  gzipSize :: "nat option"
  normalized :: string

text \<open>
  \<open>uniqueId\<close> is filled from \<^verbatim>\<open>chunkIdMap.get(outputPath)!\<close>. The \<open>!\<close> exists for the type
  checker only; at run time a missing key gives \<open>undefined\<close>, which is \<open>None\<close> here.
\<close>

record Chunk =
  chunk_id :: string
  uniqueId :: "string option"
  entry :: bool
  initial :: bool
  names :: "string list"
  files :: "string list"
  dynamicImports :: "string list"

record Module =
  mod_name :: string
  mod_size :: int
  chunkUniqueIds :: "string list"

record OutputPayload =
  version :: string
  bundleName :: string
  bundler :: "(string \<times> string) option"
  builtAt :: int
  duration :: "int option"
  assets :: "Asset list"
  chunks :: "Chunk list"
  modules :: "Module list"
  plugin :: "string \<times> string"

section \<open>transform.ts\<close>

record TransformOptions =
  opt_bundleName :: string
  opt_outputDir :: "string option"
  opt_bundler :: "(string \<times> string) option"
  opt_builtAt :: "int option"
  opt_duration :: "int option"

text \<open>
  What \<open>transformMetafile\<close> reads from outside: the file system (\<open>readFileSync\<close>, \<open>None\<close>
  when it throws), zlib's encoder, \<open>path.resolve\<close> (which depends on the working
  directory), the clock and the version in \<^verbatim>\<open>package.json\<close>.
\<close>

record env =
  readFileSync :: "string \<Rightarrow> bytes option"
  zlib_impl :: zlib
  resolve :: "string \<Rightarrow> string"
  Date_now :: int
  PLUGIN_VERSION :: string

text \<open>
  \<^verbatim>\<open>
  const chunkIdMap = new Map<string, string>();
  for (let i = 0; i < outputEntries.length; i++) {
    const [outputPath] = outputEntries[i];
    chunkIdMap.set(outputPath, `${i}-${outputPath}`);
  }
  \<close>
\<close>

fun build_chunkIdMap ::
  "(string \<times> MetafileOutput) list \<Rightarrow> nat \<Rightarrow> (string \<rightharpoonup> string) \<Rightarrow> (string \<rightharpoonup> string)" where
  "build_chunkIdMap [] i chunkIdMap = chunkIdMap"
| "build_chunkIdMap ((outputPath, output) # rest) i chunkIdMap =
     build_chunkIdMap rest (i + 1)
       (chunkIdMap(outputPath \<mapsto> string_of_nat i @ ''-'' @ outputPath))"

text \<open>
  \<^verbatim>\<open>
  let gzipSize: number | null = null;
  if (outputDir) {
    try {
      const filePath = join(outputDir, basename(outputPath));
      const content = readFileSync(filePath);
      gzipSize = getGzipSize(outputPath, content);
    } catch { }
  }
  \<close>
  \<open>outputDir\<close> is \<open>undefined\<close> (\<open>None\<close>) or a string; the empty string is falsy.
\<close>

definition compute_gzipSize :: "env \<Rightarrow> string option \<Rightarrow> string \<Rightarrow> nat option" where
  "compute_gzipSize E outputDir outputPath =
     (case outputDir of
        None \<Rightarrow> None
      | Some dir \<Rightarrow>
          if dir = [] then None
          else (case readFileSync E (path_join dir (basename outputPath)) of
                  None \<Rightarrow> None
                | Some content \<Rightarrow> getGzipSize (zlib_impl E) outputPath content))"

text \<open>
  \<^verbatim>\<open>
  const dynamicImports: string[] = [];
  for (const imp of output.imports) {
    if (imp.kind === "dynamic-import" && !imp.external) { dynamicImports.push(imp.path); }
  }
  \<close>
  \<open>external\<close> is \<open>undefined\<close>, \<open>false\<close> or \<open>true\<close>; only \<open>true\<close> is truthy.
\<close>

fun collect_dynamicImports :: "OutputImport list \<Rightarrow> string list \<Rightarrow> string list" where
  "collect_dynamicImports [] acc = acc"
| "collect_dynamicImports (imp # rest) acc =
     (if import_kind imp = ''dynamic-import'' \<and> import_external imp \<noteq> Some True
      then collect_dynamicImports rest (acc @ [import_path imp])
      else collect_dynamicImports rest acc)"

text \<open>
  \<^verbatim>\<open>.replace(/\.[^.]+$/, "")\<close>: the leftmost \<open>.\<close> that is followed, up to the end of the
  input, by one or more characters other than \<open>.\<close>; the match is removed.
\<close>

fun strip_extension :: "string \<Rightarrow> string" where
  "strip_extension [] = []"
| "strip_extension (c # cs) =
     (if c = CHR ''.'' \<and> cs \<noteq> [] \<and> CHR ''.'' \<notin> set cs then []
      else c # strip_extension cs)"

text \<open>
  \<^verbatim>\<open>
  const name = output.entryPoint
    ? basename(output.entryPoint).replace(/\.[^.]+$/, "")
    : basename(outputPath).replace(/\.[^.]+$/, "");
  \<close>
  The condition is the truthiness of \<open>entryPoint\<close>: \<open>undefined\<close> and the empty string
  take the second branch.
\<close>

definition chunk_name :: "string \<Rightarrow> MetafileOutput \<Rightarrow> string" where
  "chunk_name outputPath output =
     (case entryPoint output of
        Some ep \<Rightarrow>
          if ep \<noteq> [] then strip_extension (basename ep)
          else strip_extension (basename outputPath)
      | None \<Rightarrow> strip_extension (basename outputPath))"

text \<open>
  The loop over \<open>outputEntries\<close> that fills \<open>assets\<close> and \<open>chunks\<close> (the arrays built so
  far are the last argument)
  (\<^verbatim>\<open>for (const [outputPath, output] of outputEntries) { ... }\<close>); \<open>continue\<close> for a
  path that ends in \<open>.map\<close>, otherwise one \<open>push\<close> on each array.
\<close>

fun output_loop ::
  "env \<Rightarrow> string option \<Rightarrow> (string \<rightharpoonup> string) \<Rightarrow> (string \<times> MetafileOutput) list \<Rightarrow>
     Asset list \<times> Chunk list \<Rightarrow> Asset list \<times> Chunk list" where
  "output_loop E outputDir chunkIdMap [] (assets_acc, chunks_acc) = (assets_acc, chunks_acc)"
| "output_loop E outputDir chunkIdMap ((outputPath, output) # rest) (assets_acc, chunks_acc) =
     (if endsWith outputPath ''.map''
      then output_loop E outputDir chunkIdMap rest (assets_acc, chunks_acc)
      else output_loop E outputDir chunkIdMap rest
        (assets_acc @
           [\<lparr>asset_name = outputPath,
             asset_size = output_bytes output,
             gzipSize = compute_gzipSize E outputDir outputPath,
             normalized = normalizeAssetName outputPath\<rparr>],
         chunks_acc @
           [\<lparr>chunk_id = outputPath,
             uniqueId = chunkIdMap outputPath,
             entry = (entryPoint output \<noteq> None),
             initial = (entryPoint output \<noteq> None),
             names = [chunk_name outputPath output],
             files = [outputPath],
             dynamicImports = collect_dynamicImports (output_imports output) []\<rparr>]))"

text \<open>
  \<open>key in obj\<close> holds for the own keys of \<open>obj\<close> and for the property names it inherits.
  The objects of a metafile are plain objects (parsed JSON), so these are the property
  names of \<open>Object.prototype\<close>.
\<close>

definition Object_prototype_keys :: "string list" where
  "Object_prototype_keys =
     [''constructor'', ''__defineGetter__'', ''__defineSetter__'', ''hasOwnProperty'',
      ''__lookupGetter__'', ''__lookupSetter__'', ''isPrototypeOf'', ''propertyIsEnumerable'',
      ''toString'', ''valueOf'', ''__proto__'', ''toLocaleString'']"

definition js_in :: "string \<Rightarrow> (string \<times> 'a) list \<Rightarrow> bool" where
  "js_in key obj = (key \<in> set (map fst obj) \<or> key \<in> set Object_prototype_keys)"

text \<open>
  \<^verbatim>\<open>
  for (const [outputPath, output] of outputEntries) {
    if (outputPath.endsWith(".map")) { continue; }
    if (inputPath in output.inputs) {
      const uid = chunkIdMap.get(outputPath);
      if (uid) { chunkUniqueIds.push(uid); }
    }
  }
  \<close>
  \<open>uid\<close> is truthy when it is a non-empty string.
\<close>

fun link_loop ::
  "(string \<rightharpoonup> string) \<Rightarrow> string \<Rightarrow> (string \<times> MetafileOutput) list \<Rightarrow> string list \<Rightarrow> string list" where
  "link_loop chunkIdMap inputPath [] acc = acc"
| "link_loop chunkIdMap inputPath ((outputPath, output) # rest) acc =
     (if endsWith outputPath ''.map'' then link_loop chunkIdMap inputPath rest acc
      else if js_in inputPath (output_inputs output) then
        (case chunkIdMap outputPath of
           Some uid \<Rightarrow>
             if uid \<noteq> [] then link_loop chunkIdMap inputPath rest (acc @ [uid])
             else link_loop chunkIdMap inputPath rest acc
         | None \<Rightarrow> link_loop chunkIdMap inputPath rest acc)
      else link_loop chunkIdMap inputPath rest acc)"

text \<open>
  \<^verbatim>\<open>for (const [inputPath, input] of Object.entries(metafile.inputs)) { ... modules.push(...) }\<close>
\<close>

fun module_loop ::
  "(string \<rightharpoonup> string) \<Rightarrow> (string \<times> MetafileOutput) list \<Rightarrow> (string \<times> MetafileInput) list \<Rightarrow>
     Module list \<Rightarrow> Module list" where
  "module_loop chunkIdMap outputEntries [] acc = acc"
| "module_loop chunkIdMap outputEntries ((inputPath, input) # rest) acc =
     module_loop chunkIdMap outputEntries rest
       (acc @
          [\<lparr>mod_name = inputPath,
            mod_size = input_bytes input,
            chunkUniqueIds = link_loop chunkIdMap inputPath outputEntries []\<rparr>])"

text \<open>
  \<open>transformMetafile\<close>. \<^verbatim>\<open>options.outputDir ? resolve(options.outputDir) : undefined\<close> tests
  truthiness; \<^verbatim>\<open>options.builtAt ?? Date.now()\<close> replaces \<open>undefined\<close> only.
\<close>

definition transformMetafile :: "env \<Rightarrow> Metafile \<Rightarrow> TransformOptions \<Rightarrow> OutputPayload" where
  "transformMetafile E metafile options =
     (let outputDir = (case opt_outputDir options of
                         None \<Rightarrow> None
                       | Some d \<Rightarrow> if d \<noteq> [] then Some (resolve E d) else None);
          outputEntries = outputs metafile;
          chunkIdMap = build_chunkIdMap outputEntries 0 Map.empty;
          (the_assets, the_chunks) = output_loop E outputDir chunkIdMap outputEntries ([], []);
          the_modules = module_loop chunkIdMap outputEntries (inputs metafile) []
      in \<lparr>version = ''3'',
          bundleName = opt_bundleName options,
          bundler = opt_bundler options,
          builtAt = (case opt_builtAt options of None \<Rightarrow> Date_now E | Some t \<Rightarrow> t),
          duration = opt_duration options,
          assets = the_assets,
          chunks = the_chunks,
          modules = the_modules,
          plugin = (''metafile-codecov-bundle'', PLUGIN_VERSION E)\<rparr>)"

section \<open>providers/github.ts\<close>

text \<open>
  \<^verbatim>\<open>
  export const encodeSlug = (ownerRepo: string): string => {
    const idx = ownerRepo.indexOf("/");
    if (idx === -1) { return `${ownerRepo}::::`; }
    const owner = ownerRepo.slice(0, idx);
    const repo = ownerRepo.slice(idx + 1);
    return `${owner}:::${repo}::::`;
  };
  \<close>
  With \<open>0 \<le> idx < length\<close>, \<open>slice(0, idx)\<close> is \<open>take idx\<close> and \<open>slice(idx + 1)\<close> is
  \<open>drop (idx + 1)\<close>.
\<close>

definition encodeSlug :: "string \<Rightarrow> string" where
  "encodeSlug ownerRepo =
     (let idx = indexOf ownerRepo CHR ''/'' in
      if idx = -1 then ownerRepo @ ''::::''
      else (let owner = take (nat idx) ownerRepo;
                repo = drop (nat (idx + 1)) ownerRepo
            in owner @ '':::'' @ repo @ ''::::''))"

section \<open>upload.ts\<close>

text \<open>
  A value thrown in JavaScript, as the \<open>catch\<close> clause of \<open>uploadBundleStats\<close> tells
  them apart: an \<open>Error\<close> with its message; any other value \<open>v\<close> that \<open>String(v)\<close>
  converts, held as that string; or a value \<open>v\<close> for which \<open>String(v)\<close> itself throws (an
  object without \<open>toString\<close> and \<open>valueOf\<close> such as \<^verbatim>\<open>Object.create(null)\<close>, or one whose
  \<open>toString\<close> throws), held with what \<open>String(v)\<close> throws. \<open>exn_message\<close> is
  \<^verbatim>\<open>err instanceof Error ? err.message : String(err)\<close>, an expression that returns a
  string or throws.
\<close>

datatype js_exn = Error string | Thrown string | Unconvertible js_exn


text \<open>
  What the code reads of a \<open>Response\<close>: the status, the status text, and the outcome of
  \<^verbatim>\<open>(await response.json()).url\<close>, which is an exception (the body is not JSON, or it is
  \<open>null\<close>), a missing \<open>url\<close> (\<open>None\<close>) or a string. \<open>response.ok\<close> holds for the
  statuses 200 to 299.
\<close>

record Response =
  status :: nat
  statusText :: string
  json_url :: "js_exn + string option"

definition ok :: "Response \<Rightarrow> bool" where
  "ok response = (200 \<le> status response \<and> status response \<le> 299)"

record RequestInit =
  req_method :: string
  req_headers :: "(string \<times> string) list"
  req_body :: string

record GitHubActionsParams =
  branch :: string
  commit :: string
  pr :: string
  service :: string
  slug :: string
  build :: string
  buildURL :: string
  job :: string

text \<open>
  The asynchronous functions run one after the other, so each is a function of the state
  of the world: the state \<open>net\<close> of whatever answers \<open>fetch\<close>, and the \<open>trace\<close> of the
  requests sent and the delays waited so far. A fetcher maps a request and the state of
  the network to a response, or to the exception its promise is rejected with, and the
  next state.
\<close>

datatype event = Fetch string RequestInit | Delay nat

record 'w world =
  net :: 'w
  trace :: "event list"

type_synonym 'w fetcher = "string \<Rightarrow> RequestInit \<Rightarrow> 'w \<Rightarrow> (js_exn + Response) \<times> 'w"

definition call_fetcher ::
  "'w fetcher \<Rightarrow> string \<Rightarrow> RequestInit \<Rightarrow> 'w world \<Rightarrow> (js_exn + Response) \<times> 'w world" where
  "call_fetcher fetcher url init w =
     (case fetcher url init (net w) of
        (result, n) \<Rightarrow> (result, \<lparr>net = n, trace = trace w @ [Fetch url init]\<rparr>))"

text \<open>\<^verbatim>\<open>const delay = (ms) => new Promise((resolve) => setTimeout(resolve, ms));\<close>\<close>

definition delay :: "nat \<Rightarrow> 'w world \<Rightarrow> 'w world" where
  "delay ms w = w\<lparr>trace := trace w @ [Delay ms]\<rparr>"


definition MAX_RETRIES :: int where
  "MAX_RETRIES = 3"


text \<open>
  \<^verbatim>\<open>
  const fetchWithRetry = async (url, init, fetcher, retries, delayMs) => {
    const response = await fetcher(url, init);
    if (response.ok) { return response; }
    if (retries <= 1) {
      throw new Error(`Request failed: ${response.status} ${response.statusText}`);
    }
    await delay(delayMs);
    return fetchWithRetry(url, init, fetcher, retries - 1, delayMs);
  };
  \<close>
  A rejected \<open>fetcher\<close> promise leaves the function at the \<open>await\<close>.
\<close>

function fetchWithRetry ::
  "string \<Rightarrow> RequestInit \<Rightarrow> 'w fetcher \<Rightarrow> int \<Rightarrow> nat \<Rightarrow> 'w world \<Rightarrow>
     (js_exn + Response) \<times> 'w world" where
  "fetchWithRetry url init fetcher retries delayMs w =
     (case call_fetcher fetcher url init w of
        (Inl err, w1) \<Rightarrow> (Inl err, w1)
      | (Inr response, w1) \<Rightarrow>
          if ok response then (Inr response, w1)
          else if retries \<le> 1 then
            (Inl (Error (''Request failed: '' @ string_of_nat (status response) @ '' ''
                          @ statusText response)), w1)
          else fetchWithRetry url init fetcher (retries - 1) delayMs (delay delayMs w1))"
  by pat_completeness auto
termination
  by (relation "measure (\<lambda>(url, init, fetcher, retries, delayMs, w). nat retries)") auto

declare fetchWithRetry.simps [simp del]

text \<open>
  \<^verbatim>\<open>
  const getPresignedUrl = async (apiUrl, serviceParams, oidcToken, fetcher, retries, delayMs) => {
    const response = await fetchWithRetry(apiUrl,
      { method: "POST",
        headers: { "Content-Type": "application/json", Authorization: `token ${oidcToken}` },
        body: JSON.stringify(serviceParams) },
      fetcher, retries, delayMs);
    const data = (await response.json()) as { url?: string };
    if (!data.url) { throw new Error("Presigned URL response missing 'url' field"); }
    return data.url;
  };
  \<close>
  \<open>JSON.stringify\<close> is a parameter. \<open>!data.url\<close> holds for a missing \<open>url\<close> and for the
  empty string.
\<close>

definition presigned_request :: "(GitHubActionsParams \<Rightarrow> string) \<Rightarrow> GitHubActionsParams \<Rightarrow> string \<Rightarrow> RequestInit" where
  "presigned_request JSON_stringify serviceParams oidcToken =
     \<lparr>req_method = ''POST'',
      req_headers = [(''Content-Type'', ''application/json''),
                     (''Authorization'', ''token '' @ oidcToken)],
      req_body = JSON_stringify serviceParams\<rparr>"

definition missing_url_message :: string where
  "missing_url_message = ''Presigned URL response missing '' @ [CHR 0x27] @ ''url'' @ [CHR 0x27] @ '' field''"

definition getPresignedUrl ::
  "(GitHubActionsParams \<Rightarrow> string) \<Rightarrow> string \<Rightarrow> GitHubActionsParams \<Rightarrow> string \<Rightarrow> 'w fetcher \<Rightarrow>
     int \<Rightarrow> nat \<Rightarrow> 'w world \<Rightarrow> (js_exn + string) \<times> 'w world" where
  "getPresignedUrl JSON_stringify apiUrl serviceParams oidcToken fetcher retries delayMs w =
     (case fetchWithRetry apiUrl (presigned_request JSON_stringify serviceParams oidcToken)
             fetcher retries delayMs w of
        (Inl err, w1) \<Rightarrow> (Inl err, w1)
      | (Inr response, w1) \<Rightarrow>
          (case json_url response of
             Inl err \<Rightarrow> (Inl err, w1)
           | Inr None \<Rightarrow> (Inl (Error missing_url_message), w1)
           | Inr (Some url) \<Rightarrow>
               if url = [] then (Inl (Error missing_url_message), w1)
               else (Inr url, w1)))"

text \<open>
  \<^verbatim>\<open>
  const putPayload = async (presignedUrl, payload, fetcher, retries, delayMs) => {
    await fetchWithRetry(presignedUrl,
      { method: "PUT", headers: { "Content-Type": "application/json" }, body: payload },
      fetcher, retries, delayMs);
  };
  \<close>
\<close>

definition put_request :: "string \<Rightarrow> RequestInit" where
  "put_request payload =
     \<lparr>req_method = ''PUT'',
      req_headers = [(''Content-Type'', ''application/json'')],
      req_body = payload\<rparr>"

definition putPayload ::
  "string \<Rightarrow> string \<Rightarrow> 'w fetcher \<Rightarrow> int \<Rightarrow> nat \<Rightarrow> 'w world \<Rightarrow> (js_exn + unit) \<times> 'w world" where
  "putPayload presignedUrl payload fetcher retries delayMs w =
     (case fetchWithRetry presignedUrl (put_request payload) fetcher retries delayMs w of
        (Inl err, w1) \<Rightarrow> (Inl err, w1)
      | (Inr response, w1) \<Rightarrow> (Inr (), w1))"

record 'w UploadOptions =
  payload :: string
  oidcToken :: string
  serviceParams :: GitHubActionsParams
  apiUrl :: "string option"
  fetcher :: "'w fetcher option"
  retryDelayMs :: "nat option"

record UploadResult =
  success :: bool
  presignedUrl :: "string option"
  error :: "string option"



chapter \<open>Notions used to state the properties\<close>

section \<open>File names\<close>

text \<open>
  The extension of a file name as the specification speaks of it: the text behind the
  last \<open>.\<close>, when the name has one.
\<close>

definition file_extension :: "string \<Rightarrow> string option" where
  "file_extension fileName =
     (if CHR ''.'' \<in> set fileName
      then Some (rev (takeWhile (\<lambda>c. c \<noteq> CHR ''.'') (rev fileName)))
      else None)"

section \<open>The transform\<close>

text \<open>
  The entries of \<open>outputs\<close> the loops do not skip, the imports counted as dynamic, the asset
  and the chunk pushed for one entry, the uniqueId of a position, and the uniqueId (if
  any) that \<open>link_loop\<close> pushes for one entry.
\<close>

definition not_map :: "string \<times> MetafileOutput \<Rightarrow> bool" where
  "not_map e = (\<not> endsWith (fst e) ''.map'')"

definition is_dynamic :: "OutputImport \<Rightarrow> bool" where
  "is_dynamic imp = (import_kind imp = ''dynamic-import'' \<and> import_external imp \<noteq> Some True)"

definition asset_of :: "env \<Rightarrow> string option \<Rightarrow> string \<times> MetafileOutput \<Rightarrow> Asset" where
  "asset_of E outputDir e =
     \<lparr>asset_name = fst e, asset_size = output_bytes (snd e),
      gzipSize = compute_gzipSize E outputDir (fst e), normalized = normalizeAssetName (fst e)\<rparr>"

definition chunk_of :: "(string \<rightharpoonup> string) \<Rightarrow> string \<times> MetafileOutput \<Rightarrow> Chunk" where
  "chunk_of chunkIdMap e =
     \<lparr>chunk_id = fst e, uniqueId = chunkIdMap (fst e),
      entry = (entryPoint (snd e) \<noteq> None), initial = (entryPoint (snd e) \<noteq> None),
      names = [chunk_name (fst e) (snd e)], files = [fst e],
      dynamicImports = map import_path (filter is_dynamic (output_imports (snd e)))\<rparr>"

definition uid_of :: "nat \<Rightarrow> string \<Rightarrow> string" where
  "uid_of i outputPath = string_of_nat i @ ''-'' @ outputPath"

definition link_of :: "(string \<rightharpoonup> string) \<Rightarrow> string \<Rightarrow> string \<times> MetafileOutput \<Rightarrow> string option" where
  "link_of cm inputPath e =
     (if not_map e \<and> js_in inputPath (output_inputs (snd e))
      then (case cm (fst e) of Some uid \<Rightarrow> if uid \<noteq> [] then Some uid else None | None \<Rightarrow> None)
      else None)"

text \<open>
  An encoder to apply the theorems to: the deflate stream is one stored block (the byte
  \<open>01\<close>, the length and its complement, two bytes each, and the content as it is; for
  content of fewer than 65536 bytes), the checksum is the CRC-32 of RFC 1952, computed
  bit by bit, and the operating system is Unix.
\<close>

definition stored_block :: "bytes \<Rightarrow> bytes" where
  "stored_block content =
     [1, of_nat (length content), of_nat (length content div 256),
         NOT (of_nat (length content)), NOT (of_nat (length content div 256))] @ content"

definition crc32_bit :: "32 word \<Rightarrow> 32 word" where
  "crc32_bit c = (if bit c 0 then drop_bit 1 c XOR 0xEDB88320 else drop_bit 1 c)"

definition crc32_byte :: "8 word \<Rightarrow> 32 word \<Rightarrow> 32 word" where
  "crc32_byte b c = (crc32_bit ^^ 8) (c XOR ucast b)"

definition crc32_bytes :: "bytes \<Rightarrow> 32 word" where
  "crc32_bytes content = NOT (fold crc32_byte content 0xFFFFFFFF)"

definition example_zlib :: zlib where
  "example_zlib = \<lparr>deflate = stored_block, crc32 = crc32_bytes, OS_CODE = 3\<rparr>"

text \<open>Concrete environments and manifests, used where a theorem is applied to an input.\<close>

definition example_env :: env where
  "example_env =
     \<lparr>readFileSync = (\<lambda>p. None), zlib_impl = example_zlib, resolve = (\<lambda>p. p),
      Date_now = 0, PLUGIN_VERSION = ''0.0.0''\<rparr>"

definition example_options :: TransformOptions where
  "example_options =
     \<lparr>opt_bundleName = ''test'', opt_outputDir = None, opt_bundler = None,
      opt_builtAt = None, opt_duration = None\<rparr>"

definition example_output :: MetafileOutput where
  "example_output =
     \<lparr>output_bytes = 100, output_inputs = [], output_imports = [], output_exports = [],
      entryPoint = None\<rparr>"

definition example_input :: MetafileInput where
  "example_input = \<lparr>input_bytes = 10, input_imports = [], input_format = None\<rparr>"

definition map_in_the_middle :: Metafile where
  "map_in_the_middle =
     \<lparr>inputs = [(''src/main.ts'', example_input), (''src/unused.ts'', example_input)],
      outputs =
        [(''main.js'', example_output\<lparr>output_inputs := [(''src/main.ts'', 8)],
                                       entryPoint := Some ''src/main.ts''\<rparr>),
         (''main.js.map'', example_output\<lparr>output_inputs := [(''src/main.ts'', 8)]\<rparr>),
         (''lazy.js'', example_output\<lparr>output_inputs := [(''src/main.ts'', 1)]\<rparr>)]\<rparr>"

definition empty_entryPoint :: Metafile where
  "empty_entryPoint =
     \<lparr>inputs = [],
      outputs = [(''dist/lazy.js'', example_output\<lparr>entryPoint := Some ''''\<rparr>)]\<rparr>"

definition two_chunks :: Metafile where
  "two_chunks =
     \<lparr>inputs = [(''src/main.tsx'', example_input), (''src/lazy.tsx'', example_input)],
      outputs =
        [(''dist/main.js'',
          example_output
            \<lparr>output_inputs := [(''src/main.tsx'', 8)],
             output_imports :=
               [\<lparr>import_path = ''dist/lazy.js'', import_kind = ''dynamic-import'',
                 import_original = None, import_external = None\<rparr>,
                \<lparr>import_path = ''react'', import_kind = ''dynamic-import'',
                 import_original = None, import_external = Some True\<rparr>,
                \<lparr>import_path = ''dist/shared.js'', import_kind = ''import-statement'',
                 import_original = None, import_external = Some False\<rparr>],
             entryPoint := Some ''src/main.tsx''\<rparr>),
         (''dist/lazy.js'', example_output\<lparr>output_inputs := [(''src/lazy.tsx'', 8)]\<rparr>),
         (''dist/main.js.map'', example_output)]\<rparr>"

definition inherited_key :: Metafile where
  "inherited_key =
     \<lparr>inputs = [(''constructor'', example_input)],
      outputs = [(''out.js'', example_output)]\<rparr>"

section \<open>The upload\<close>

text \<open>
  The trace of \<open>n\<close> attempts of one request, with the delay between consecutive attempts;
  the outcome of attempt number \<open>n\<close> (counted from \<open>0\<close>) when every earlier attempt was
  followed by the delay; and an outcome that is a response with a non-success status.
\<close>

fun attempts :: "string \<Rightarrow> RequestInit \<Rightarrow> nat \<Rightarrow> nat \<Rightarrow> event list" where
  "attempts url init d 0 = []"
| "attempts url init d (Suc 0) = [Fetch url init]"
| "attempts url init d (Suc (Suc n)) = Fetch url init # Delay d # attempts url init d (Suc n)"

fun nth_attempt ::
  "'w fetcher \<Rightarrow> string \<Rightarrow> RequestInit \<Rightarrow> nat \<Rightarrow> nat \<Rightarrow> 'w world \<Rightarrow> (js_exn + Response) \<times> 'w world" where
  "nth_attempt f url init d 0 w = call_fetcher f url init w"
| "nth_attempt f url init d (Suc n) w =
     nth_attempt f url init d n (delay d (snd (call_fetcher f url init w)))"

definition failed :: "(js_exn + Response) \<times> 'w world \<Rightarrow> bool" where
  "failed a = (case fst a of Inl err \<Rightarrow> False | Inr response \<Rightarrow> \<not> ok response)"

definition failure_message :: "Response \<Rightarrow> string" where
  "failure_message response =
     ''Request failed: '' @ string_of_nat (status response) @ '' '' @ statusText response"

text \<open>
  A fetcher that answers from a script: the state of the network is the list of the
  responses still to come (the test suite's \<open>makeFetcher\<close>; reading past the end throws).
\<close>

definition scripted :: "(js_exn + Response) list fetcher" where
  "scripted url init script =
     (case script of
        [] \<Rightarrow> (Inl (Error ''script exhausted''), [])
      | r # rest \<Rightarrow> (r, rest))"

definition forbidden :: "js_exn + Response" where
  "forbidden = Inr \<lparr>status = 403, statusText = ''Forbidden'', json_url = Inl (Error ''not JSON'')\<rparr>"

definition ok_without_url :: "js_exn + Response" where
  "ok_without_url = Inr \<lparr>status = 200, statusText = ''OK'', json_url = Inr None\<rparr>"

definition ok_with_url :: "js_exn + Response" where
  "ok_with_url = Inr \<lparr>status = 200, statusText = ''OK'', json_url = Inr (Some ''https://storage/put'')\<rparr>"

definition example_params :: GitHubActionsParams where
  "example_params =
     \<lparr>branch = ''main'', commit = ''abc123'', pr = [], service = ''github-actions'',
      slug = ''owner:::repo::::'', build = ''12345'', buildURL = [], job = ''build''\<rparr>"


section \<open>Hashes and paths\<close>

text \<open>
  Some position of the string starts a run of eight or more hex digits.
\<close>

fun has_long_hex_run :: "string \<Rightarrow> bool" where
  "has_long_hex_run [] = False"
| "has_long_hex_run (c # cs) = (8 \<le> length (takeWhile is_hex (c # cs)) \<or> has_long_hex_run cs)"

text \<open>
  The shape the first regular expression looks for: a delimiter \<open>-\<close> or \<open>.\<close>, a hash of
  eight or more hex digits, and a final extension of \<open>.\<close> and letters.
\<close>

definition hash_shape :: "string \<Rightarrow> string \<Rightarrow> char \<Rightarrow> string \<Rightarrow> string \<Rightarrow> bool" where
  "hash_shape base pre d h ext =
     (base = pre @ d # h @ CHR ''.'' # ext \<and> (d = CHR ''-'' \<or> d = CHR ''.'') \<and>
      8 \<le> length h \<and> list_all is_hex h \<and> ext \<noteq> [] \<and> list_all is_alpha ext)"

text \<open>
  A segment of a normalized path: not empty, without separator, and neither \<open>.\<close> nor \<open>..\<close>.
\<close>

definition clean_segment :: "string \<Rightarrow> bool" where
  "clean_segment s = (s \<noteq> [] \<and> CHR ''/'' \<notin> set s \<and> s \<noteq> ''.'' \<and> s \<noteq> ''..'')"

text \<open>
  The first pattern as the specification words it: the extension is \<open>.\<close> and lower-case
  letters.
\<close>

definition is_lower :: "char \<Rightarrow> bool" where
  "is_lower c = (c \<in> set ''abcdefghijklmnopqrstuvwxyz'')"

definition lower_ext_to_end :: "string \<Rightarrow> bool" where
  "lower_ext_to_end r =
     (case r of [] \<Rightarrow> False | d # e \<Rightarrow> d = CHR ''.'' \<and> e \<noteq> [] \<and> list_all is_lower e)"

fun spec_delimited_hash :: "string \<Rightarrow> bool" where
  "spec_delimited_hash [] = False"
| "spec_delimited_hash (c # cs) =
     (((c = CHR ''-'' \<or> c = CHR ''.'') \<and> 8 \<le> length (takeWhile is_hex cs)
        \<and> lower_ext_to_end (dropWhile is_hex cs))
      \<or> spec_delimited_hash cs)"

chapter \<open>Properties\<close>

section \<open>encodeSlug\<close>

lemma indexOf_absent: "c \<notin> set s \<Longrightarrow> indexOf s c = -1"
  by (induction s) auto

lemma indexOf_nonneg_or_absent: "indexOf s c = -1 \<or> 0 \<le> indexOf s c"
  by (induction s) (auto simp: Let_def)

lemma indexOf_first: "c \<notin> set pre \<Longrightarrow> indexOf (pre @ c # post) c = int (length pre)"
  by (induction pre) (auto simp: Let_def)

text \<open>
  Claim C8. \<open>encodeSlug\<close> splits on the first \<open>/\<close> only: a string without \<open>/\<close> is
  returned followed by \<open>::::\<close>; otherwise the result is the text before the first \<open>/\<close>,
  then \<open>:::\<close>, then everything after that first \<open>/\<close> (further slashes included), then
  \<open>::::\<close>.
\<close>

theorem encodeSlug_splits_on_first_slash:
  "(CHR ''/'' \<notin> set s \<longrightarrow> encodeSlug s = s @ ''::::'') \<and>
   (\<forall>owner repo. s = owner @ ''/'' @ repo \<and> CHR ''/'' \<notin> set owner \<longrightarrow>
      encodeSlug s = owner @ '':::'' @ repo @ ''::::'')"
proof (intro conjI impI allI)
  assume "CHR ''/'' \<notin> set s"
  then show "encodeSlug s = s @ ''::::''"
    by (simp add: encodeSlug_def indexOf_absent)
next
  fix owner repo
  assume a: "s = owner @ ''/'' @ repo \<and> CHR ''/'' \<notin> set owner"
  then have "indexOf s CHR ''/'' = int (length owner)"
    using indexOf_first [of "CHR ''/''" owner repo] by simp
  moreover have "nat (int (length owner) + 1) = Suc (length owner)"
    by simp
  ultimately show "encodeSlug s = owner @ '':::'' @ repo @ ''::::''"
    using a by (simp add: encodeSlug_def Let_def del: of_nat_Suc)
qed

theorem encodeSlug_splits_on_first_slash_witness:
  "encodeSlug ''no-slash'' = ''no-slash::::'' \<and>
   encodeSlug ''owner/repo/x'' = ''owner:::repo/x::::''"
proof -
  have "encodeSlug ''no-slash'' = ''no-slash'' @ ''::::''"
    using encodeSlug_splits_on_first_slash [of "''no-slash''"] by simp
  moreover have "encodeSlug ''owner/repo/x'' = ''owner'' @ '':::'' @ ''repo/x'' @ ''::::''"
  proof -
    have "''owner/repo/x'' = ''owner'' @ ''/'' @ ''repo/x'' \<and> CHR ''/'' \<notin> set ''owner''"
      by simp
    then show ?thesis
      using encodeSlug_splits_on_first_slash [of "''owner/repo/x''"] by blast
  qed
  ultimately show ?thesis by simp
qed

section \<open>getGzipSize\<close>

lemma endsWith_iff: "endsWith s suffix \<longleftrightarrow> (\<exists>pre. s = pre @ suffix)"
proof
  assume "endsWith s suffix"
  then have "s = take (length s - length suffix) s @ suffix"
    by (metis append_take_drop_id endsWith_def)
  then show "\<exists>pre. s = pre @ suffix" ..
next
  assume "\<exists>pre. s = pre @ suffix"
  then show "endsWith s suffix" by (auto simp: endsWith_def)
qed

lemma file_extension_iff:
  assumes "CHR ''.'' \<notin> set e"
  shows "file_extension f = Some e \<longleftrightarrow> endsWith f (CHR ''.'' # e)"
proof
  assume h: "file_extension f = Some e"
  then have dot: "CHR ''.'' \<in> set f" and e: "e = rev (takeWhile (\<lambda>c. c \<noteq> CHR ''.'') (rev f))"
    by (auto simp: file_extension_def split: if_splits)
  let ?P = "\<lambda>c. c \<noteq> CHR ''.''"
  have "dropWhile ?P (rev f) \<noteq> []" using dot by (simp add: dropWhile_eq_Nil_conv) 
  then obtain x xs where d: "dropWhile ?P (rev f) = x # xs" by (cases "dropWhile ?P (rev f)") auto
  then have "x = CHR ''.''" using hd_dropWhile [of ?P "rev f"] by fastforce
  have "rev f = takeWhile ?P (rev f) @ dropWhile ?P (rev f)" by simp
  then have "rev f = rev e @ CHR ''.'' # xs" using e d \<open>x = CHR ''.''\<close> by simp
  then have "f = rev xs @ CHR ''.'' # e" by (metis rev_append rev.simps(2) rev_rev_ident append.assoc append_Cons append_Nil rev_swap)
  then show "endsWith f (CHR ''.'' # e)" by (auto simp: endsWith_iff)
next
  assume "endsWith f (CHR ''.'' # e)"
  then obtain pre where f: "f = pre @ CHR ''.'' # e" by (auto simp: endsWith_iff)
  have "takeWhile (\<lambda>c. c \<noteq> CHR ''.'') (rev e @ CHR ''.'' # rev pre) = rev e"
    using assms by (auto simp: takeWhile_tail)
  then show "file_extension f = Some e"
    by (simp add: file_extension_def f)
qed

lemma COMPRESSIBLE_test_iff:
  "COMPRESSIBLE_test f \<longleftrightarrow> (\<exists>e \<in> set COMPRESSIBLE_alternatives. file_extension f = Some e)"
proof -
  have "\<forall>e \<in> set COMPRESSIBLE_alternatives. CHR ''.'' \<notin> set e"
    by (simp add: COMPRESSIBLE_alternatives_def)
  then show ?thesis
    unfolding COMPRESSIBLE_test_def list_ex_iff using file_extension_iff by blast
qed

lemma length_gzipSync: "length (gzipSync Z content) = 18 + length (deflate Z content)"
  by (simp add: gzipSync_def le32_def)

text \<open>
  The example encoder on the one byte \<open>a\<close>: the header, the stored block, the CRC-32
  \<open>e8b7be43\<close> and the length 1.
\<close>

lemma gzipSync_example:
  "gzipSync example_zlib [97] =
     [0x1f, 0x8b, 8, 0, 0, 0, 0, 0, 0, 3, 1, 1, 0, 0xfe, 0xff, 97, 0x43, 0xbe, 0xb7, 0xe8, 1, 0, 0, 0]"
  by code_simp

text \<open>
  Claim C7. \<open>getGzipSize\<close> returns \<open>null\<close> exactly when the extension of the file name is
  not one of css, html, json, js, mjs, svg, txt, xml, xhtml (compared as written, in lower
  case). For a listed extension it returns the byte length of the gzip member made from
  the content: the 18 bytes of header and trailer and the deflate stream, so a positive
  number whatever the content is, the empty content included. The function is total: it
  has no failing branch.
\<close>

theorem getGzipSize_allow_list:
  "(getGzipSize Z fileName content = None \<longleftrightarrow>
      file_extension fileName \<notin>
        Some ` {''css'', ''html'', ''json'', ''js'', ''mjs'', ''svg'', ''txt'', ''xml'', ''xhtml''}) \<and>
   (file_extension fileName \<in>
        Some ` {''css'', ''html'', ''json'', ''js'', ''mjs'', ''svg'', ''txt'', ''xml'', ''xhtml''} \<longrightarrow>
      getGzipSize Z fileName content = Some (length (gzipSync Z content)) \<and>
      length (gzipSync Z content) = 18 + length (deflate Z content) \<and>
      0 < length (gzipSync Z content) \<and>
      (\<exists>n. getGzipSize Z fileName [] = Some n \<and> 0 < n))"
proof -
  have listed: "COMPRESSIBLE_test fileName \<longleftrightarrow>
      file_extension fileName \<in>
        Some ` {''css'', ''html'', ''json'', ''js'', ''mjs'', ''svg'', ''txt'', ''xml'', ''xhtml''}"
    unfolding COMPRESSIBLE_test_iff by (auto simp: COMPRESSIBLE_alternatives_def)
  show ?thesis
    unfolding getGzipSize_def listed by (simp add: length_gzipSync)
qed

theorem getGzipSize_allow_list_witness:
  "map (\<lambda>fileName. getGzipSize example_zlib fileName [116, 101, 115, 116])
       [''file.css'', ''file.html'', ''file.json'', ''file.js'', ''file.mjs'', ''file.svg'',
        ''file.txt'', ''file.xml'', ''file.xhtml''] =
     replicate 9 (Some 27) \<and>
   map (\<lambda>fileName. getGzipSize example_zlib fileName [137, 80, 78, 71])
       [''image.png'', ''font.woff2'', ''archive.zip'', ''bundle.JS'', ''bundle.js.map'', ''js'', ''Makefile''] =
     replicate 7 None \<and>
   getGzipSize example_zlib ''empty.js'' [] = Some 23"
proof -
  have yes: "getGzipSize example_zlib f c = Some (18 + length (stored_block c))"
    if "file_extension f \<in>
        Some ` {''css'', ''html'', ''json'', ''js'', ''mjs'', ''svg'', ''txt'', ''xml'', ''xhtml''}" for f c
  proof -
    from getGzipSize_allow_list [of example_zlib f c] that
    have "getGzipSize example_zlib f c = Some (length (gzipSync example_zlib c))"
      and "length (gzipSync example_zlib c) = 18 + length (deflate example_zlib c)"
      by blast+
    then show ?thesis by (simp add: example_zlib_def)
  qed
  have no: "getGzipSize example_zlib f c = None"
    if "file_extension f \<notin>
        Some ` {''css'', ''html'', ''json'', ''js'', ''mjs'', ''svg'', ''txt'', ''xml'', ''xhtml''}" for f c
    using getGzipSize_allow_list [of example_zlib f c] that by blast
  have "getGzipSize example_zlib ''file.css'' [116, 101, 115, 116] = Some 27"
    by (subst yes) (simp_all add: file_extension_def stored_block_def)
  moreover have "getGzipSize example_zlib ''file.html'' [116, 101, 115, 116] = Some 27"
    by (subst yes) (simp_all add: file_extension_def stored_block_def)
  moreover have "getGzipSize example_zlib ''file.json'' [116, 101, 115, 116] = Some 27"
    by (subst yes) (simp_all add: file_extension_def stored_block_def)
  moreover have "getGzipSize example_zlib ''file.js'' [116, 101, 115, 116] = Some 27"
    by (subst yes) (simp_all add: file_extension_def stored_block_def)
  moreover have "getGzipSize example_zlib ''file.mjs'' [116, 101, 115, 116] = Some 27"
    by (subst yes) (simp_all add: file_extension_def stored_block_def)
  moreover have "getGzipSize example_zlib ''file.svg'' [116, 101, 115, 116] = Some 27"
    by (subst yes) (simp_all add: file_extension_def stored_block_def)
  moreover have "getGzipSize example_zlib ''file.txt'' [116, 101, 115, 116] = Some 27"
    by (subst yes) (simp_all add: file_extension_def stored_block_def)
  moreover have "getGzipSize example_zlib ''file.xml'' [116, 101, 115, 116] = Some 27"
    by (subst yes) (simp_all add: file_extension_def stored_block_def)
  moreover have "getGzipSize example_zlib ''file.xhtml'' [116, 101, 115, 116] = Some 27"
    by (subst yes) (simp_all add: file_extension_def stored_block_def)
  moreover have "getGzipSize example_zlib ''image.png'' [137, 80, 78, 71] = None"
    by (rule no) (simp add: file_extension_def)
  moreover have "getGzipSize example_zlib ''font.woff2'' [137, 80, 78, 71] = None"
    by (rule no) (simp add: file_extension_def)
  moreover have "getGzipSize example_zlib ''archive.zip'' [137, 80, 78, 71] = None"
    by (rule no) (simp add: file_extension_def)
  moreover have "getGzipSize example_zlib ''bundle.JS'' [137, 80, 78, 71] = None"
    by (rule no) (simp add: file_extension_def)
  moreover have "getGzipSize example_zlib ''bundle.js.map'' [137, 80, 78, 71] = None"
    by (rule no) (simp add: file_extension_def)
  moreover have "getGzipSize example_zlib ''js'' [137, 80, 78, 71] = None"
    by (rule no) (simp add: file_extension_def)
  moreover have "getGzipSize example_zlib ''Makefile'' [137, 80, 78, 71] = None"
    by (rule no) (simp add: file_extension_def)
  moreover have "getGzipSize example_zlib ''empty.js'' [] = Some 23"
    by (subst yes) (simp_all add: file_extension_def stored_block_def)
  ultimately show ?thesis by (simp add: numeral_eq_Suc)
qed

section \<open>transformMetafile: the loops as maps and filters\<close>

lemma collect_dynamicImports_eq:
  "collect_dynamicImports imps acc = acc @ map import_path (filter is_dynamic imps)"
  by (induction imps arbitrary: acc) (auto simp: is_dynamic_def)

lemma output_loop_eq:
  "output_loop E od cm es (A, C) =
     (A @ map (asset_of E od) (filter not_map es), C @ map (chunk_of cm) (filter not_map es))"
proof (induction es arbitrary: A C)
  case Nil
  then show ?case by simp
next
  case (Cons e es)
  obtain p out where e: "e = (p, out)" by (cases e)
  show ?case
    by (simp add: e Cons.IH not_map_def asset_of_def chunk_of_def collect_dynamicImports_eq)
qed

lemma build_chunkIdMap_other:
  "p \<notin> fst ` set es \<Longrightarrow> build_chunkIdMap es i m p = m p"
  by (induction es arbitrary: i m) auto

lemma build_chunkIdMap_nth:
  "distinct (map fst es) \<Longrightarrow> j < length es \<Longrightarrow>
     build_chunkIdMap es i m (fst (es ! j)) = Some (uid_of (i + j) (fst (es ! j)))"
proof (induction es arbitrary: i m j)
  case Nil
  then show ?case by simp
next
  case (Cons e es)
  obtain p out where e: "e = (p, out)" by (cases e)
  from Cons.prems have fresh: "p \<notin> fst ` set es" and d: "distinct (map fst es)"
    by (auto simp: e)
  show ?case
  proof (cases j)
    case 0
    then show ?thesis
      using fresh by (simp add: e build_chunkIdMap_other uid_of_def)
  next
    case (Suc k)
    with Cons.prems have k: "k < length es" by simp
    have step: "build_chunkIdMap (e # es) i m =
        build_chunkIdMap es (Suc i) (m(p \<mapsto> string_of_nat i @ ''-'' @ p))"
      by (simp add: e)
    have nth: "(e # es) ! j = es ! k" and idx: "i + j = Suc i + k"
      by (simp_all add: Suc)
    show ?thesis
      unfolding step nth idx by (rule Cons.IH [OF d k])
  qed
qed

lemma build_chunkIdMap_defined:
  "p \<in> fst ` set es \<Longrightarrow> \<exists>u. build_chunkIdMap es i m p = Some u \<and> u \<noteq> []"
proof (induction es arbitrary: i m)
  case Nil
  then show ?case by simp
next
  case (Cons e es)
  obtain q out where e: "e = (q, out)" by (cases e)
  show ?case
  proof (cases "p \<in> fst ` set es")
    case True
    have step: "build_chunkIdMap (e # es) i m =
        build_chunkIdMap es (Suc i) (m(q \<mapsto> string_of_nat i @ ''-'' @ q))"
      by (simp add: e)
    show ?thesis
      unfolding step by (rule Cons.IH [OF True])
  next
    case False
    with Cons.prems have "p = q" by (auto simp: e)
    with False show ?thesis by (simp add: e build_chunkIdMap_other)
  qed
qed

lemma link_loop_eq:
  "link_loop cm ip es acc = acc @ List.map_filter (link_of cm ip) es"
proof (induction es arbitrary: acc)
  case Nil
  then show ?case by (simp add: List.map_filter_simps)
next
  case (Cons e es)
  obtain p out where e: "e = (p, out)" by (cases e)
  show ?case
    by (simp add: e Cons.IH List.map_filter_simps link_of_def not_map_def split: option.splits)
qed

lemma module_loop_eq:
  "module_loop cm es ins acc =
     acc @ map (\<lambda>(ip, inp). \<lparr>mod_name = ip, mod_size = input_bytes inp,
                              chunkUniqueIds = List.map_filter (link_of cm ip) es\<rparr>) ins"
  by (induction ins arbitrary: acc) (auto simp: link_loop_eq)

lemma transform_assets:
  "assets (transformMetafile E m opts) =
     map (asset_of E (case opt_outputDir opts of None \<Rightarrow> None | Some d \<Rightarrow> if d \<noteq> [] then Some (resolve E d) else None))
       (filter not_map (outputs m))"
  by (simp add: transformMetafile_def Let_def output_loop_eq)

lemma transform_chunks:
  "chunks (transformMetafile E m opts) =
     map (chunk_of (build_chunkIdMap (outputs m) 0 Map.empty)) (filter not_map (outputs m))"
  by (simp add: transformMetafile_def Let_def output_loop_eq)

lemma transform_modules:
  "modules (transformMetafile E m opts) =
     map (\<lambda>(ip, inp). \<lparr>mod_name = ip, mod_size = input_bytes inp,
            chunkUniqueIds = List.map_filter (link_of (build_chunkIdMap (outputs m) 0 Map.empty) ip) (outputs m)\<rparr>)
       (inputs m)"
  by (simp add: transformMetafile_def Let_def output_loop_eq module_loop_eq split: prod.splits)

lemma not_map_eta: "not_map = (\<lambda>e. \<not> endsWith (fst e) ''.map'')"
  by (rule ext) (simp add: not_map_def)

lemma enumerate_lookup:
  assumes "distinct (map fst es)" and "(i, e) \<in> set (enumerate 0 es)"
  shows "build_chunkIdMap es 0 Map.empty (fst e) = Some (uid_of i (fst e))"
proof -
  from assms(2) have "i < length es" and "e = es ! i"
    by (auto simp: in_set_enumerate_eq)
  with build_chunkIdMap_nth [OF assms(1), of i 0 Map.empty] show ?thesis by simp
qed

lemma over_enumerate:
  "map g (filter P es) = map (\<lambda>(i, e). g e) (filter (\<lambda>(i, e). P e) (enumerate 0 es))"
proof -
  have "map g (filter P es) = map g (filter P (map snd (enumerate 0 es)))"
    by simp
  also have "\<dots> = map (\<lambda>(i, e). g e) (filter (\<lambda>(i, e). P e) (enumerate 0 es))"
    unfolding filter_map map_map by (simp add: comp_def case_prod_unfold)
  finally show ?thesis .
qed

lemma chunk_ids_enumerated:
  assumes "distinct (map fst es)"
  shows "map (\<lambda>e. (fst e, build_chunkIdMap es 0 Map.empty (fst e))) (filter not_map es) =
         map (\<lambda>(i, e). (fst e, Some (uid_of i (fst e)))) (filter (\<lambda>(i, e). not_map e) (enumerate 0 es))"
proof -
  have "map (\<lambda>(i, e). (fst e, build_chunkIdMap es 0 Map.empty (fst e))) (filter (\<lambda>(i, e). not_map e) (enumerate 0 es)) =
        map (\<lambda>(i, e). (fst e, Some (uid_of i (fst e)))) (filter (\<lambda>(i, e). not_map e) (enumerate 0 es))"
    by (rule map_cong) (auto dest: enumerate_lookup [OF assms])
  then show ?thesis
    using over_enumerate [of "\<lambda>e. (fst e, build_chunkIdMap es 0 Map.empty (fst e))" not_map es] by simp
qed

text \<open>
  Claim C1. The keys of \<open>outputs\<close> are distinct (they are the keys of one object). Then
  every output, source maps included, gets the uniqueId \<open><ordinal>-<outputPath>\<close> in
  \<open>chunkIdMap\<close>, the ordinal being its zero-based position in the enumeration of the
  outputs. The chunks are the outputs whose path does not end in \<open>.map\<close>, in order, each
  with the uniqueId of its absolute position; the assets are the same outputs. So an output
  ending in \<open>.map\<close> yields no asset and no chunk, and still uses up its ordinal.
\<close>

theorem uniqueId_by_ordinal:
  assumes "distinct (map fst (outputs m))"
  shows "(\<forall>i < length (outputs m).
            build_chunkIdMap (outputs m) 0 Map.empty (fst (outputs m ! i)) =
              Some (string_of_nat i @ ''-'' @ fst (outputs m ! i))) \<and>
         map (\<lambda>c. (chunk_id c, uniqueId c)) (chunks (transformMetafile E m opts)) =
           map (\<lambda>(i, e). (fst e, Some (string_of_nat i @ ''-'' @ fst e)))
             (filter (\<lambda>(i, e). \<not> endsWith (fst e) ''.map'') (enumerate 0 (outputs m))) \<and>
         map asset_name (assets (transformMetafile E m opts)) =
           map fst (filter (\<lambda>e. \<not> endsWith (fst e) ''.map'') (outputs m))"
proof (intro conjI allI impI)
  fix i assume "i < length (outputs m)"
  then show "build_chunkIdMap (outputs m) 0 Map.empty (fst (outputs m ! i)) =
      Some (string_of_nat i @ ''-'' @ fst (outputs m ! i))"
    using build_chunkIdMap_nth [OF assms, of i 0 Map.empty] by (simp add: uid_of_def)
next
  have "map (\<lambda>c. (chunk_id c, uniqueId c)) (chunks (transformMetafile E m opts)) =
        map (\<lambda>e. (fst e, build_chunkIdMap (outputs m) 0 Map.empty (fst e))) (filter not_map (outputs m))"
    by (simp add: transform_chunks chunk_of_def comp_def)
  also have "\<dots> = map (\<lambda>(i, e). (fst e, Some (uid_of i (fst e))))
      (filter (\<lambda>(i, e). not_map e) (enumerate 0 (outputs m)))"
    by (rule chunk_ids_enumerated [OF assms])
  finally show "map (\<lambda>c. (chunk_id c, uniqueId c)) (chunks (transformMetafile E m opts)) =
      map (\<lambda>(i, e). (fst e, Some (string_of_nat i @ ''-'' @ fst e)))
        (filter (\<lambda>(i, e). \<not> endsWith (fst e) ''.map'') (enumerate 0 (outputs m)))"
    by (simp add: uid_of_def [abs_def] not_map_eta)
next
  show "map asset_name (assets (transformMetafile E m opts)) =
      map fst (filter (\<lambda>e. \<not> endsWith (fst e) ''.map'') (outputs m))"
    by (simp add: transform_assets asset_of_def comp_def not_map_eta)
qed

theorem uniqueId_by_ordinal_witness:
  "distinct (map fst (outputs map_in_the_middle)) \<and>
   build_chunkIdMap (outputs map_in_the_middle) 0 Map.empty ''main.js.map'' = Some ''1-main.js.map'' \<and>
   map (\<lambda>c. (chunk_id c, uniqueId c)) (chunks (transformMetafile example_env map_in_the_middle example_options)) =
     [(''main.js'', Some ''0-main.js''), (''lazy.js'', Some ''2-lazy.js'')] \<and>
   map asset_name (assets (transformMetafile example_env map_in_the_middle example_options)) =
     [''main.js'', ''lazy.js'']"
proof -
  have d: "distinct (map fst (outputs map_in_the_middle))"
    by (simp add: map_in_the_middle_def)
  have one: "(1::nat) < length (outputs map_in_the_middle)"
    by (simp add: map_in_the_middle_def)
  note t = uniqueId_by_ordinal [OF d, of example_env example_options]
  from t one have "build_chunkIdMap (outputs map_in_the_middle) 0 Map.empty (fst (outputs map_in_the_middle ! 1)) =
      Some (string_of_nat 1 @ ''-'' @ fst (outputs map_in_the_middle ! 1))"
    by blast
  then have a: "build_chunkIdMap (outputs map_in_the_middle) 0 Map.empty ''main.js.map'' = Some ''1-main.js.map''"
    by (simp add: map_in_the_middle_def string_of_nat.simps digit_char_def)
  from t have "map (\<lambda>c. (chunk_id c, uniqueId c)) (chunks (transformMetafile example_env map_in_the_middle example_options)) =
      map (\<lambda>(i, e). (fst e, Some (string_of_nat i @ ''-'' @ fst e)))
        (filter (\<lambda>(i, e). \<not> endsWith (fst e) ''.map'') (enumerate 0 (outputs map_in_the_middle)))"
    by blast
  then have b: "map (\<lambda>c. (chunk_id c, uniqueId c)) (chunks (transformMetafile example_env map_in_the_middle example_options)) =
     [(''main.js'', Some ''0-main.js''), (''lazy.js'', Some ''2-lazy.js'')]"
    by (simp add: map_in_the_middle_def endsWith_def string_of_nat.simps digit_char_def)
  from t have "map asset_name (assets (transformMetafile example_env map_in_the_middle example_options)) =
      map fst (filter (\<lambda>e. \<not> endsWith (fst e) ''.map'') (outputs map_in_the_middle))"
    by blast
  then have c: "map asset_name (assets (transformMetafile example_env map_in_the_middle example_options)) =
     [''main.js'', ''lazy.js'']"
    by (simp add: map_in_the_middle_def endsWith_def)
  from d a b c show ?thesis by blast
qed

section \<open>transformMetafile: chunks\<close>

lemma strip_extension_final:
  "ext \<noteq> [] \<Longrightarrow> CHR ''.'' \<notin> set ext \<Longrightarrow> strip_extension (stem @ CHR ''.'' # ext) = stem"
  by (induction stem) auto

lemma strip_extension_none:
  "CHR ''.'' \<notin> set s \<Longrightarrow> strip_extension s = s"
  by (induction s) auto

lemma strip_extension_trailing_dot:
  "strip_extension (s @ ''.'') = s @ ''.''"
  by (induction s) auto

lemma basename_last_segment:
  "b \<noteq> [] \<Longrightarrow> CHR ''/'' \<notin> set b \<Longrightarrow> basename (dir @ CHR ''/'' # b) = b"
proof -
  assume b: "b \<noteq> []" "CHR ''/'' \<notin> set b"
  then have "\<not> is_sep (hd (rev b))"
    by (metis hd_rev is_sep_def last_in_set)
  then have "dropWhile is_sep (rev b @ CHR ''/'' # rev dir) = rev b @ CHR ''/'' # rev dir"
    using b by (cases "rev b") auto
  moreover have "takeWhile (\<lambda>c. \<not> is_sep c) (rev b @ CHR ''/'' # rev dir) = rev b"
    using b by (auto simp: takeWhile_tail is_sep_def)
  ultimately show ?thesis by (simp add: basename_def)
qed

lemma basename_no_separator:
  "CHR ''/'' \<notin> set b \<Longrightarrow> basename b = b"
proof -
  assume b: "CHR ''/'' \<notin> set b"
  then have h1: "dropWhile is_sep (rev b) = rev b"
    by (cases "rev b") (auto simp: is_sep_def)
  have h2: "takeWhile (\<lambda>c. \<not> is_sep c) (rev b) = rev b"
    using b by (auto simp: is_sep_def)
  show ?thesis by (simp only: basename_def h1 h2 rev_rev_ident)
qed

text \<open>
  Claim C6, as amended. For every output whose path does not end in \<open>.map\<close> the chunk has
  \<open>id\<close> the output path, \<open>entry\<close> and \<open>initial\<close> both equal to "\<open>entryPoint\<close> is not
  \<open>undefined\<close>", \<open>files\<close> the one-element list of the output path, \<open>names\<close> the
  one-element list holding the base name, with its final extension removed, of
  \<open>entryPoint\<close> when that is a non-empty string and of the output path otherwise, and
  \<open>dynamicImports\<close> the paths of the imports whose kind is \<open>dynamic-import\<close> and whose
  \<open>external\<close> flag is not \<open>true\<close>, in order.
\<close>

theorem chunk_fields:
  "map (\<lambda>c. (chunk_id c, entry c, initial c, names c, files c, dynamicImports c))
     (chunks (transformMetafile E m opts)) =
   map (\<lambda>(outputPath, output).
          (outputPath,
           entryPoint output \<noteq> None,
           entryPoint output \<noteq> None,
           [strip_extension (basename
              (case entryPoint output of
                 None \<Rightarrow> outputPath
               | Some ep \<Rightarrow> if ep = [] then outputPath else ep))],
           [outputPath],
           map import_path
             (filter (\<lambda>imp. import_kind imp = ''dynamic-import'' \<and> import_external imp \<noteq> Some True)
                (output_imports output))))
     (filter (\<lambda>(outputPath, output). \<not> endsWith outputPath ''.map'') (outputs m))"
proof -
  have f: "(\<lambda>(outputPath, output). \<not> endsWith outputPath ''.map'') = not_map"
    by (rule ext) (simp add: not_map_def case_prod_unfold)
  show ?thesis
    unfolding f transform_chunks map_map
    by (rule map_cong)
       (auto simp: chunk_of_def chunk_name_def is_dynamic_def [abs_def] split: option.splits)
qed

text \<open>
  The claim as stated takes the name from \<open>entryPoint\<close> whenever it is set. An output whose
  \<open>entryPoint\<close> is the empty string is an entry (\<open>entryPoint !== undefined\<close>), but the name
  comes from the output path, not from the base name of \<open>entryPoint\<close> (which is empty).
\<close>

theorem chunk_fields_counterexample:
  "map (\<lambda>(outputPath, output). entryPoint output) (outputs empty_entryPoint) = [Some '''']
   \<and> strip_extension (basename '''') = ''''
   \<and> map (\<lambda>c. (entry c, names c)) (chunks (transformMetafile example_env empty_entryPoint example_options))
       = [(True, [''lazy''])]"
  by (simp add: empty_entryPoint_def example_output_def transform_chunks chunk_of_def not_map_def
      endsWith_def chunk_name_def basename_def is_sep_def)

theorem chunk_fields_witness:
  "map (\<lambda>c. (chunk_id c, entry c, initial c, names c, files c, dynamicImports c))
     (chunks (transformMetafile example_env two_chunks example_options)) =
   [(''dist/main.js'', True, True, [''main''], [''dist/main.js''], [''dist/lazy.js'']),
    (''dist/lazy.js'', False, False, [''lazy''], [''dist/lazy.js''], [])]"
proof -
  have "map (\<lambda>(outputPath, output).
          (outputPath,
           entryPoint output \<noteq> None,
           entryPoint output \<noteq> None,
           [strip_extension (basename
              (case entryPoint output of
                 None \<Rightarrow> outputPath
               | Some ep \<Rightarrow> if ep = [] then outputPath else ep))],
           [outputPath],
           map import_path
             (filter (\<lambda>imp. import_kind imp = ''dynamic-import'' \<and> import_external imp \<noteq> Some True)
                (output_imports output))))
     (filter (\<lambda>(outputPath, output). \<not> endsWith outputPath ''.map'') (outputs two_chunks)) =
   [(''dist/main.js'', True, True, [''main''], [''dist/main.js''], [''dist/lazy.js'']),
    (''dist/lazy.js'', False, False, [''lazy''], [''dist/lazy.js''], [])]"
    by (simp add: two_chunks_def example_output_def endsWith_def basename_def is_sep_def)
  then show ?thesis
    using chunk_fields [of example_env two_chunks example_options] by simp
qed

section \<open>transformMetafile: the payload as a whole\<close>

lemma map_filter_set:
  "u \<in> set (List.map_filter f xs) \<longleftrightarrow> (\<exists>x \<in> set xs. f x = Some u)"
  by (induction xs) (auto simp: List.map_filter_simps split: option.splits)

lemma link_of_is_chunk:
  assumes "e \<in> set es" and "link_of cm ip e = Some u"
  shows "\<exists>c \<in> set (map (chunk_of cm) (filter not_map es)). uniqueId c = Some u"
proof -
  from assms(2) have nm: "not_map e" and u: "cm (fst e) = Some u"
    by (auto simp: link_of_def split: if_splits option.splits)
  from assms(1) nm have "chunk_of cm e \<in> set (map (chunk_of cm) (filter not_map es))"
    by simp
  moreover have "uniqueId (chunk_of cm e) = Some u"
    by (simp add: chunk_of_def u)
  ultimately show ?thesis by blast
qed

text \<open>
  Claim C10. In every payload \<open>assets\<close> and \<open>chunks\<close> have the same length; at every index
  the asset's name is the chunk's id and the single element of the chunk's files; and
  every element of a module's \<open>chunkUniqueIds\<close> is the uniqueId of a chunk of the payload.
\<close>

theorem payload_consistent:
  "length (assets (transformMetafile E m opts)) = length (chunks (transformMetafile E m opts)) \<and>
   (\<forall>i < length (assets (transformMetafile E m opts)).
      asset_name (assets (transformMetafile E m opts) ! i) = chunk_id (chunks (transformMetafile E m opts) ! i) \<and>
      files (chunks (transformMetafile E m opts) ! i) = [asset_name (assets (transformMetafile E m opts) ! i)]) \<and>
   (\<forall>mo \<in> set (modules (transformMetafile E m opts)). \<forall>u \<in> set (chunkUniqueIds mo).
      \<exists>c \<in> set (chunks (transformMetafile E m opts)). uniqueId c = Some u)"
proof (intro conjI allI impI ballI)
  show "length (assets (transformMetafile E m opts)) = length (chunks (transformMetafile E m opts))"
    by (simp add: transform_assets transform_chunks)
next
  fix i assume "i < length (assets (transformMetafile E m opts))"
  then have i: "i < length (filter not_map (outputs m))"
    by (simp add: transform_assets)
  then show "asset_name (assets (transformMetafile E m opts) ! i) = chunk_id (chunks (transformMetafile E m opts) ! i)"
    by (simp add: transform_assets transform_chunks asset_of_def chunk_of_def)
  from i show "files (chunks (transformMetafile E m opts) ! i) = [asset_name (assets (transformMetafile E m opts) ! i)]"
    by (simp add: transform_assets transform_chunks asset_of_def chunk_of_def)
next
  fix mo u
  assume mo: "mo \<in> set (modules (transformMetafile E m opts))" and u: "u \<in> set (chunkUniqueIds mo)"
  let ?cm = "build_chunkIdMap (outputs m) 0 Map.empty"
  from mo obtain ip where "chunkUniqueIds mo = List.map_filter (link_of ?cm ip) (outputs m)"
    by (auto simp: transform_modules)
  with u obtain e where "e \<in> set (outputs m)" and "link_of ?cm ip e = Some u"
    by (auto simp: map_filter_set)
  then show "\<exists>c \<in> set (chunks (transformMetafile E m opts)). uniqueId c = Some u"
    unfolding transform_chunks by (rule link_of_is_chunk)
qed

theorem payload_consistent_witness:
  "length (assets (transformMetafile example_env two_chunks example_options)) = 2 \<and>
   length (chunks (transformMetafile example_env two_chunks example_options)) = 2 \<and>
   asset_name (assets (transformMetafile example_env two_chunks example_options) ! 1) = ''dist/lazy.js'' \<and>
   chunk_id (chunks (transformMetafile example_env two_chunks example_options) ! 1) = ''dist/lazy.js'' \<and>
   files (chunks (transformMetafile example_env two_chunks example_options) ! 1) = [''dist/lazy.js''] \<and>
   map chunkUniqueIds (modules (transformMetafile example_env two_chunks example_options)) =
     [[''0-dist/main.js''], [''1-dist/lazy.js'']] \<and>
   map uniqueId (chunks (transformMetafile example_env two_chunks example_options)) =
     [Some ''0-dist/main.js'', Some ''1-dist/lazy.js'']"
proof -
  let ?P = "transformMetafile example_env two_chunks example_options"
  have la: "length (assets ?P) = 2"
    by (simp add: transform_assets two_chunks_def not_map_def endsWith_def)
  have a1: "asset_name (assets ?P ! 1) = ''dist/lazy.js''"
    by (simp add: transform_assets two_chunks_def not_map_def endsWith_def asset_of_def)
  note t = payload_consistent [of example_env two_chunks example_options]
  from t la have lc: "length (chunks ?P) = 2" by simp
  from t have "\<forall>i < length (assets ?P).
      asset_name (assets ?P ! i) = chunk_id (chunks ?P ! i) \<and>
      files (chunks ?P ! i) = [asset_name (assets ?P ! i)]"
    by blast
  then have "asset_name (assets ?P ! 1) = chunk_id (chunks ?P ! 1) \<and>
      files (chunks ?P ! 1) = [asset_name (assets ?P ! 1)]"
    using la by (elim allE [of _ 1]) simp
  with a1 have c1: "chunk_id (chunks ?P ! 1) = ''dist/lazy.js''" "files (chunks ?P ! 1) = [''dist/lazy.js'']"
    by simp_all
  have mo: "map chunkUniqueIds (modules ?P) = [[''0-dist/main.js''], [''1-dist/lazy.js'']]"
    by (simp add: transform_modules two_chunks_def List.map_filter_simps link_of_def not_map_def
        endsWith_def js_in_def Object_prototype_keys_def example_output_def
        string_of_nat.simps digit_char_def)
  have ch: "map uniqueId (chunks ?P) = [Some ''0-dist/main.js'', Some ''1-dist/lazy.js'']"
    by (simp add: transform_chunks two_chunks_def not_map_def endsWith_def chunk_of_def
        string_of_nat.simps digit_char_def)
  from la lc a1 c1 mo ch show ?thesis by simp
qed

section \<open>transformMetafile: modules\<close>

text \<open>
  Claim C2 at the manifest \<open>inherited_key\<close>: its only output has an empty \<open>inputs\<close> mapping,
  yet the module of the input path \<open>constructor\<close> is linked to that output's chunk, because
  \<open>"constructor" in output.inputs\<close> holds through \<open>Object.prototype\<close>.
\<close>

theorem modules_inherited_key:
  "map (\<lambda>(outputPath, output). (outputPath, map fst (output_inputs output))) (outputs inherited_key) =
     [(''out.js'', [])] \<and>
   map (\<lambda>mo. (mod_name mo, chunkUniqueIds mo))
     (modules (transformMetafile example_env inherited_key example_options)) =
     [(''constructor'', [''0-out.js''])]"
  by (simp add: transform_modules inherited_key_def List.map_filter_simps link_of_def not_map_def
      endsWith_def js_in_def Object_prototype_keys_def example_output_def
      string_of_nat.simps digit_char_def)

text \<open>
  For input paths that are not property names of \<open>Object.prototype\<close> the modules are as
  claim C2 describes them: one per input, in order, linked to the non-map outputs whose
  \<open>inputs\<close> mapping has the path as a key, by position.
\<close>

lemma map_filter_if:
  "(\<forall>x \<in> set xs. f x = (if P x then Some (g x) else None)) \<Longrightarrow>
     List.map_filter f xs = map g (filter P xs)"
  by (induction xs) (auto simp: List.map_filter_simps)

lemma map_filter_map: "List.map_filter f (map h xs) = List.map_filter (\<lambda>x. f (h x)) xs"
  by (induction xs) (auto simp: List.map_filter_simps split: option.splits)

lemma links_enumerated:
  assumes "distinct (map fst es)" and "ip \<notin> set Object_prototype_keys"
  shows "List.map_filter (link_of (build_chunkIdMap es 0 Map.empty) ip) es =
      map (\<lambda>(i, e). string_of_nat i @ ''-'' @ fst e)
        (filter (\<lambda>(i, e). \<not> endsWith (fst e) ''.map'' \<and> ip \<in> fst ` set (output_inputs (snd e)))
           (enumerate 0 es))"
proof -
  let ?cm = "build_chunkIdMap es 0 Map.empty"
  have "List.map_filter (link_of ?cm ip) es =
      List.map_filter (link_of ?cm ip) (map snd (enumerate 0 es))"
    by simp
  also have "\<dots> = List.map_filter (\<lambda>x. link_of ?cm ip (snd x)) (enumerate 0 es)"
    by (rule map_filter_map)
  also have "\<dots> = map (\<lambda>x. string_of_nat (fst x) @ ''-'' @ fst (snd x))
        (filter (\<lambda>x. \<not> endsWith (fst (snd x)) ''.map'' \<and> ip \<in> fst ` set (output_inputs (snd (snd x))))
           (enumerate 0 es))"
  proof (rule map_filter_if, rule ballI)
    fix x assume "x \<in> set (enumerate 0 es)"
    then have "?cm (fst (snd x)) = Some (uid_of (fst x) (fst (snd x)))"
      using enumerate_lookup [OF assms(1), of "fst x" "snd x"] by simp
    then show "link_of ?cm ip (snd x) =
        (if \<not> endsWith (fst (snd x)) ''.map'' \<and> ip \<in> fst ` set (output_inputs (snd (snd x)))
         then Some (string_of_nat (fst x) @ ''-'' @ fst (snd x)) else None)"
      using assms(2) by (simp add: link_of_def js_in_def not_map_def uid_of_def)
  qed
  finally show ?thesis by (simp add: case_prod_unfold)
qed

lemma modules_own_keys:
  assumes "distinct (map fst (outputs m))"
    and "\<forall>ip \<in> fst ` set (inputs m). ip \<notin> set Object_prototype_keys"
  shows "modules (transformMetafile E m opts) =
     map (\<lambda>(inputPath, input).
            \<lparr>mod_name = inputPath, mod_size = input_bytes input,
             chunkUniqueIds =
               map (\<lambda>(i, e). string_of_nat i @ ''-'' @ fst e)
                 (filter (\<lambda>(i, e). \<not> endsWith (fst e) ''.map'' \<and> inputPath \<in> fst ` set (output_inputs (snd e)))
                    (enumerate 0 (outputs m)))\<rparr>)
       (inputs m)"
  unfolding transform_modules
proof (rule map_cong [OF refl])
  fix x assume x: "x \<in> set (inputs m)"
  obtain ip inp where xe: "x = (ip, inp)" by (cases x)
  with x assms(2) have "ip \<notin> set Object_prototype_keys" by force
  from links_enumerated [OF assms(1) this]
  show "(case x of (ip, inp) \<Rightarrow> \<lparr>mod_name = ip, mod_size = input_bytes inp,
            chunkUniqueIds = List.map_filter (link_of (build_chunkIdMap (outputs m) 0 Map.empty) ip) (outputs m)\<rparr>) =
        (case x of (inputPath, input) \<Rightarrow>
            \<lparr>mod_name = inputPath, mod_size = input_bytes input,
             chunkUniqueIds =
               map (\<lambda>(i, e). string_of_nat i @ ''-'' @ fst e)
                 (filter (\<lambda>(i, e). \<not> endsWith (fst e) ''.map'' \<and> inputPath \<in> fst ` set (output_inputs (snd e)))
                    (enumerate 0 (outputs m)))\<rparr>)"
    by (simp add: xe)
qed

section \<open>uploadBundleStats: retries and results\<close>

lemma trace_call_fetcher:
  "trace (snd (call_fetcher f url init w)) = trace w @ [Fetch url init]"
  by (simp add: call_fetcher_def split: prod.splits)

lemma trace_nth_attempt:
  "trace (snd (nth_attempt f url init d n w)) = trace w @ attempts url init d (Suc n)"
proof (induction n arbitrary: w)
  case 0
  then show ?case by (simp add: trace_call_fetcher)
next
  case (Suc n)
  have "trace (delay d (snd (call_fetcher f url init w))) = trace w @ [Fetch url init, Delay d]"
    by (simp add: delay_def trace_call_fetcher)
  then show ?case by (simp add: Suc)
qed

lemma fetchWithRetry_not_failed:
  assumes "\<not> failed (call_fetcher f url init w)"
  shows "fetchWithRetry url init f k d w = call_fetcher f url init w"
proof -
  obtain res w1 where c: "call_fetcher f url init w = (res, w1)"
    by (cases "call_fetcher f url init w")
  show ?thesis
    using assms by (subst fetchWithRetry.simps) (cases res; simp add: c failed_def)
qed

lemma fetchWithRetry_failed_last:
  assumes "failed (call_fetcher f url init w)" and "k \<le> 1"
  shows "\<exists>r. fst (call_fetcher f url init w) = Inr r \<and> \<not> ok r \<and>
           fetchWithRetry url init f k d w =
             (Inl (Error (failure_message r)), snd (call_fetcher f url init w))"
proof -
  obtain res w1 where c: "call_fetcher f url init w = (res, w1)"
    by (cases "call_fetcher f url init w")
  show ?thesis
    using assms
    by (subst fetchWithRetry.simps) (cases res; simp add: c failed_def failure_message_def)
qed

lemma fetchWithRetry_failed_more:
  assumes "failed (call_fetcher f url init w)" and "1 < k"
  shows "fetchWithRetry url init f k d w =
           fetchWithRetry url init f (k - 1) d (delay d (snd (call_fetcher f url init w)))"
proof -
  obtain res w1 where c: "call_fetcher f url init w = (res, w1)"
    by (cases "call_fetcher f url init w")
  show ?thesis
    using assms by (subst fetchWithRetry.simps) (cases res; simp add: c failed_def)
qed

text \<open>With a budget of \<open>k + 1\<close> attempts: the first attempt that does not fail settles the call.\<close>

lemma fetchWithRetry_settles:
  "n \<le> k \<Longrightarrow> (\<forall>i < n. failed (nth_attempt f url init d i w)) \<Longrightarrow>
     \<not> failed (nth_attempt f url init d n w) \<Longrightarrow>
     fetchWithRetry url init f (int k + 1) d w = nth_attempt f url init d n w"
proof (induction n arbitrary: k w)
  case 0
  then have "\<not> failed (call_fetcher f url init w)" by simp
  then show ?case by (simp add: fetchWithRetry_not_failed)
next
  case (Suc n)
  from Suc.prems(1) obtain k' where k: "k = Suc k'" and nk: "n \<le> k'"
    by (cases k) auto
  from Suc.prems(2) have "failed (nth_attempt f url init d 0 w)" by blast
  then have f0: "failed (call_fetcher f url init w)" by simp
  let ?w = "delay d (snd (call_fetcher f url init w))"
  have earlier: "\<forall>i < n. failed (nth_attempt f url init d i ?w)"
  proof (intro allI impI)
    fix i assume "i < n"
    then have "Suc i < Suc n" by simp
    with Suc.prems(2) have "failed (nth_attempt f url init d (Suc i) w)"
      by blast
    then show "failed (nth_attempt f url init d i ?w)" by simp
  qed
  have this_one: "\<not> failed (nth_attempt f url init d n ?w)"
    using Suc.prems(3) by simp
  have ih: "fetchWithRetry url init f (int k' + 1) d ?w = nth_attempt f url init d n ?w"
    by (rule Suc.IH [OF nk earlier this_one])
  have big: "1 < int k + 1" and k1: "int k + 1 - 1 = int k' + 1"
    by (simp_all add: k)
  have more: "fetchWithRetry url init f (int k + 1) d w =
      fetchWithRetry url init f (int k + 1 - 1) d ?w"
    by (rule fetchWithRetry_failed_more [OF f0 big])
  show ?case unfolding more k1 nth_attempt.simps by (rule ih)
qed

text \<open>With a budget of \<open>k + 1\<close> attempts that all fail: the failure of the last response.\<close>

lemma fetchWithRetry_exhausted:
  "(\<forall>i \<le> k. failed (nth_attempt f url init d i w)) \<Longrightarrow>
     \<exists>r. fst (nth_attempt f url init d k w) = Inr r \<and> \<not> ok r \<and>
         fetchWithRetry url init f (int k + 1) d w =
           (Inl (Error (failure_message r)), snd (nth_attempt f url init d k w))"
proof (induction k arbitrary: w)
  case 0
  then have "failed (call_fetcher f url init w)" by simp
  from fetchWithRetry_failed_last [OF this, of "int 0 + 1" d] show ?case by simp
next
  case (Suc k)
  from Suc.prems have "failed (nth_attempt f url init d 0 w)" by blast
  then have f0: "failed (call_fetcher f url init w)" by simp
  let ?w = "delay d (snd (call_fetcher f url init w))"
  have "\<forall>i \<le> k. failed (nth_attempt f url init d i ?w)"
  proof (intro allI impI)
    fix i assume "i \<le> k"
    then have "Suc i \<le> Suc k" by simp
    with Suc.prems have "failed (nth_attempt f url init d (Suc i) w)"
      by blast
    then show "failed (nth_attempt f url init d i ?w)" by simp
  qed
  from Suc.IH [OF this] obtain r where
    r: "fst (nth_attempt f url init d k ?w) = Inr r" "\<not> ok r"
      "fetchWithRetry url init f (int k + 1) d ?w =
         (Inl (Error (failure_message r)), snd (nth_attempt f url init d k ?w))"
    by blast
  have big: "1 < int (Suc k) + 1" and k1: "int (Suc k) + 1 - 1 = int k + 1"
    by simp_all
  have more: "fetchWithRetry url init f (int (Suc k) + 1) d w =
      fetchWithRetry url init f (int (Suc k) + 1 - 1) d ?w"
    by (rule fetchWithRetry_failed_more [OF f0 big])
  have "fst (nth_attempt f url init d (Suc k) w) = Inr r"
    using r(1) by simp
  moreover have "fetchWithRetry url init f (int (Suc k) + 1) d w =
      (Inl (Error (failure_message r)), snd (nth_attempt f url init d (Suc k) w))"
    unfolding more k1 nth_attempt.simps by (rule r(3))
  ultimately show ?case using r(2) by blast
qed

lemma less_3_cases: "(\<forall>i < (3::nat). P i) \<longleftrightarrow> P 0 \<and> P 1 \<and> P 2"
proof -
  have "i < 3 \<longleftrightarrow> i = 0 \<or> i = 1 \<or> i = 2" for i :: nat by arith
  then show ?thesis by auto
qed

lemma getPresignedUrl_world:
  "snd (getPresignedUrl J a sp tok f k d w) = snd (fetchWithRetry a (presigned_request J sp tok) f k d w)"
  by (simp add: getPresignedUrl_def split: prod.splits sum.splits option.splits)

lemma getPresignedUrl_failure:
  assumes "fst (fetchWithRetry a (presigned_request J sp tok) f k d w) = Inl e"
  shows "fst (getPresignedUrl J a sp tok f k d w) = Inl e"
proof -
  obtain res w1 where c: "fetchWithRetry a (presigned_request J sp tok) f k d w = (res, w1)"
    by (cases "fetchWithRetry a (presigned_request J sp tok) f k d w")
  with assms show ?thesis by (simp add: getPresignedUrl_def)
qed

lemma putPayload_world:
  "snd (putPayload u pl f k d w) = snd (fetchWithRetry u (put_request pl) f k d w)"
  by (simp add: putPayload_def split: prod.splits sum.splits)

lemma putPayload_failure:
  assumes "fst (fetchWithRetry u (put_request pl) f k d w) = Inl e"
  shows "fst (putPayload u pl f k d w) = Inl e"
proof -
  obtain res w1 where c: "fetchWithRetry u (put_request pl) f k d w = (res, w1)"
    by (cases "fetchWithRetry u (put_request pl) f k d w")
  with assms show ?thesis by (simp add: putPayload_def)
qed

lemma getPresignedUrl_missing_url:
  assumes "fst (call_fetcher f a (presigned_request J sp tok) w) = Inr r" and "ok r"
    and "json_url r = Inr None"
  shows "getPresignedUrl J a sp tok f k d w =
           (Inl (Error missing_url_message), snd (call_fetcher f a (presigned_request J sp tok) w))"
proof -
  have "\<not> failed (call_fetcher f a (presigned_request J sp tok) w)"
    using assms by (simp add: failed_def)
  then have eq: "fetchWithRetry a (presigned_request J sp tok) f k d w =
      call_fetcher f a (presigned_request J sp tok) w"
    by (rule fetchWithRetry_not_failed)
  obtain res w1 where c: "call_fetcher f a (presigned_request J sp tok) w = (res, w1)"
    by (cases "call_fetcher f a (presigned_request J sp tok) w")
  show ?thesis
    using assms by (simp add: getPresignedUrl_def eq c)
qed

lemma fetchWithRetry_at_most_3:
  "\<exists>n. 1 \<le> n \<and> n \<le> 3 \<and>
     trace (snd (fetchWithRetry url init f MAX_RETRIES d w)) = trace w @ attempts url init d n"
proof -
  have M: "MAX_RETRIES = int 2 + 1" by (simp add: MAX_RETRIES_def)
  let ?a = "\<lambda>n. nth_attempt f url init d n w"
  consider (a) "\<not> failed (?a 0)" | (b) "failed (?a 0)" "\<not> failed (?a 1)"
    | (c) "failed (?a 0)" "failed (?a 1)" "\<not> failed (?a 2)"
    | (d) "failed (?a 0)" "failed (?a 1)" "failed (?a 2)"
    by blast
  then show ?thesis
  proof cases
    case a
    then have "fetchWithRetry url init f MAX_RETRIES d w = ?a 0"
      unfolding M by (intro fetchWithRetry_settles) simp_all
    then have "trace (snd (fetchWithRetry url init f MAX_RETRIES d w)) = trace w @ attempts url init d 1"
      by (simp only: trace_nth_attempt One_nat_def)
    then show ?thesis by (intro exI [of _ 1]) simp
  next
    case b
    then have "\<forall>i < 1. failed (?a i)" by simp
    with b have "fetchWithRetry url init f MAX_RETRIES d w = ?a 1"
      unfolding M by (intro fetchWithRetry_settles) simp_all
    then have "trace (snd (fetchWithRetry url init f MAX_RETRIES d w)) = trace w @ attempts url init d (Suc 1)"
      by (simp only: trace_nth_attempt)
    then show ?thesis by (intro exI [of _ 2]) (simp add: numeral_2_eq_2)
  next
    case c
    then have "\<forall>i < 2. failed (?a i)" by (simp add: less_Suc_eq numeral_2_eq_2)
    with c have "fetchWithRetry url init f MAX_RETRIES d w = ?a 2"
      unfolding M by (intro fetchWithRetry_settles) simp_all
    then have "trace (snd (fetchWithRetry url init f MAX_RETRIES d w)) = trace w @ attempts url init d (Suc 2)"
      by (simp only: trace_nth_attempt)
    then show ?thesis by (intro exI [of _ 3]) (simp add: numeral_3_eq_3 numeral_2_eq_2)
  next
    case d
    then have "\<forall>i \<le> 2. failed (?a i)" by (simp add: le_Suc_eq numeral_2_eq_2)
    from fetchWithRetry_exhausted [OF this] have
      "snd (fetchWithRetry url init f MAX_RETRIES d w) = snd (?a 2)"
      unfolding M by auto
    then have "trace (snd (fetchWithRetry url init f MAX_RETRIES d w)) = trace w @ attempts url init d (Suc 2)"
      by (simp only: trace_nth_attempt)
    then show ?thesis by (intro exI [of _ 3]) (simp add: numeral_3_eq_3 numeral_2_eq_2)
  qed
qed

lemma getPresignedUrl_of_response:
  assumes "fst (fetchWithRetry a (presigned_request J sp tok) f k d w) = Inr r"
  shows "getPresignedUrl J a sp tok f k d w =
           ((case json_url r of
               Inl e \<Rightarrow> Inl e
             | Inr None \<Rightarrow> Inl (Error missing_url_message)
             | Inr (Some u) \<Rightarrow> if u = [] then Inl (Error missing_url_message) else Inr u),
            snd (fetchWithRetry a (presigned_request J sp tok) f k d w))"
proof -
  obtain res w1 where c: "fetchWithRetry a (presigned_request J sp tok) f k d w = (res, w1)"
    by (cases "fetchWithRetry a (presigned_request J sp tok) f k d w")
  with assms show ?thesis
    by (simp add: getPresignedUrl_def split: sum.splits option.splits)
qed

text \<open>
  Claim C4. The request of either phase goes through \<open>fetchWithRetry\<close> with a budget of
  \<open>MAX_RETRIES = 3\<close> attempts. The first of the three attempts that is not a response with
  a non-success status settles the call (with that response, or with what the fetcher
  threw), each attempt after the first being made after the configured delay; when all
  three attempts give a non-success status the call fails with
  \<open>Request failed: <status> <statusText>\<close> of the third response. So between one and three
  requests are sent, \<open>Delay d\<close> standing between consecutive ones. Each phase sends exactly
  the requests of its \<open>fetchWithRetry\<close> call and passes its failure on. A response of
  phase 1 with a success status and no \<open>url\<close>, be it the first response or one that came
  after retries, fails at once with the error
  \<open>Presigned URL response missing 'url' field\<close>: the request that brought it is the last
  one sent, no delay and no retry follow it.
\<close>

theorem retry_policy:
  "(\<forall>n < 3. (\<forall>i < n. failed (nth_attempt f url init d i w)) \<and> \<not> failed (nth_attempt f url init d n w) \<longrightarrow>
       fetchWithRetry url init f MAX_RETRIES d w = nth_attempt f url init d n w) \<and>
   ((\<forall>i < 3. failed (nth_attempt f url init d i w)) \<longrightarrow>
       (\<exists>r. fst (nth_attempt f url init d 2 w) = Inr r \<and> \<not> ok r \<and>
            fetchWithRetry url init f MAX_RETRIES d w =
              (Inl (Error (''Request failed: '' @ string_of_nat (status r) @ '' '' @ statusText r)),
               snd (nth_attempt f url init d 2 w)))) \<and>
   (\<forall>n. trace (snd (nth_attempt f url init d n w)) = trace w @ attempts url init d (Suc n)) \<and>
   (\<exists>n. 1 \<le> n \<and> n \<le> 3 \<and>
       trace (snd (fetchWithRetry url init f MAX_RETRIES d w)) = trace w @ attempts url init d n) \<and>
   snd (getPresignedUrl J url sp tok f MAX_RETRIES d w) =
     snd (fetchWithRetry url (presigned_request J sp tok) f MAX_RETRIES d w) \<and>
   (\<forall>e. fst (fetchWithRetry url (presigned_request J sp tok) f MAX_RETRIES d w) = Inl e \<longrightarrow>
        fst (getPresignedUrl J url sp tok f MAX_RETRIES d w) = Inl e) \<and>
   snd (putPayload url pl f MAX_RETRIES d w) =
     snd (fetchWithRetry url (put_request pl) f MAX_RETRIES d w) \<and>
   (\<forall>e. fst (fetchWithRetry url (put_request pl) f MAX_RETRIES d w) = Inl e \<longrightarrow>
        fst (putPayload url pl f MAX_RETRIES d w) = Inl e) \<and>
   (\<forall>r. fst (call_fetcher f url (presigned_request J sp tok) w) = Inr r \<and> ok r \<and> json_url r = Inr None \<longrightarrow>
        getPresignedUrl J url sp tok f MAX_RETRIES d w =
          (Inl (Error missing_url_message), snd (call_fetcher f url (presigned_request J sp tok) w)) \<and>
        trace (snd (getPresignedUrl J url sp tok f MAX_RETRIES d w)) =
          trace w @ [Fetch url (presigned_request J sp tok)]) \<and>
   (\<forall>r. fst (fetchWithRetry url (presigned_request J sp tok) f MAX_RETRIES d w) = Inr r \<and>
        json_url r = Inr None \<longrightarrow>
        getPresignedUrl J url sp tok f MAX_RETRIES d w =
          (Inl (Error ''Presigned URL response missing 'url' field''),
           snd (fetchWithRetry url (presigned_request J sp tok) f MAX_RETRIES d w))) \<and>
   (\<forall>n r. n < 3 \<and> (\<forall>i < n. failed (nth_attempt f url (presigned_request J sp tok) d i w)) \<and>
        fst (nth_attempt f url (presigned_request J sp tok) d n w) = Inr r \<and> ok r \<and>
        json_url r = Inr None \<longrightarrow>
        getPresignedUrl J url sp tok f MAX_RETRIES d w =
          (Inl (Error ''Presigned URL response missing 'url' field''),
           snd (nth_attempt f url (presigned_request J sp tok) d n w)) \<and>
        trace (snd (getPresignedUrl J url sp tok f MAX_RETRIES d w)) =
          trace w @ attempts url (presigned_request J sp tok) d (Suc n))"
proof -
  have M: "MAX_RETRIES = int 2 + 1" by (simp add: MAX_RETRIES_def)
  have settle: "fetchWithRetry url init f MAX_RETRIES d w = nth_attempt f url init d n w"
    if "n < 3" "\<forall>i < n. failed (nth_attempt f url init d i w)" "\<not> failed (nth_attempt f url init d n w)" for n
  proof -
    from that(1) have "n \<le> 2" by simp
    then show ?thesis unfolding M using that(2,3) by (rule fetchWithRetry_settles)
  qed
  have exhaust: "\<exists>r. fst (nth_attempt f url init d 2 w) = Inr r \<and> \<not> ok r \<and>
            fetchWithRetry url init f MAX_RETRIES d w =
              (Inl (Error (''Request failed: '' @ string_of_nat (status r) @ '' '' @ statusText r)),
               snd (nth_attempt f url init d 2 w))"
    if "\<forall>i < 3. failed (nth_attempt f url init d i w)"
  proof -
    from that have "\<forall>i \<le> 2. failed (nth_attempt f url init d i w)" by simp
    from fetchWithRetry_exhausted [OF this] show ?thesis
      unfolding M failure_message_def .
  qed
  have missing: "getPresignedUrl J url sp tok f MAX_RETRIES d w =
          (Inl (Error missing_url_message), snd (call_fetcher f url (presigned_request J sp tok) w)) \<and>
        trace (snd (getPresignedUrl J url sp tok f MAX_RETRIES d w)) =
          trace w @ [Fetch url (presigned_request J sp tok)]"
    if "fst (call_fetcher f url (presigned_request J sp tok) w) = Inr r \<and> ok r \<and> json_url r = Inr None" for r
    using that getPresignedUrl_missing_url [of f url J sp tok w r MAX_RETRIES d]
    by (simp add: trace_call_fetcher)
  have returned: "getPresignedUrl J url sp tok f MAX_RETRIES d w =
          (Inl (Error ''Presigned URL response missing 'url' field''),
           snd (fetchWithRetry url (presigned_request J sp tok) f MAX_RETRIES d w))"
    if "fst (fetchWithRetry url (presigned_request J sp tok) f MAX_RETRIES d w) = Inr r \<and>
        json_url r = Inr None" for r
    using that getPresignedUrl_of_response [of url J sp tok f MAX_RETRIES d w r]
    by (simp add: missing_url_message_def)
  have after: "getPresignedUrl J url sp tok f MAX_RETRIES d w =
          (Inl (Error ''Presigned URL response missing 'url' field''),
           snd (nth_attempt f url (presigned_request J sp tok) d n w)) \<and>
        trace (snd (getPresignedUrl J url sp tok f MAX_RETRIES d w)) =
          trace w @ attempts url (presigned_request J sp tok) d (Suc n)"
    if "n < 3 \<and> (\<forall>i < n. failed (nth_attempt f url (presigned_request J sp tok) d i w)) \<and>
        fst (nth_attempt f url (presigned_request J sp tok) d n w) = Inr r \<and> ok r \<and>
        json_url r = Inr None" for n r
  proof -
    from that have n: "n \<le> 2"
      and earlier: "\<forall>i < n. failed (nth_attempt f url (presigned_request J sp tok) d i w)"
      and r: "fst (nth_attempt f url (presigned_request J sp tok) d n w) = Inr r" "ok r"
        "json_url r = Inr None"
      by simp_all
    from r have "\<not> failed (nth_attempt f url (presigned_request J sp tok) d n w)"
      by (simp add: failed_def)
    with n earlier have eq: "fetchWithRetry url (presigned_request J sp tok) f MAX_RETRIES d w =
        nth_attempt f url (presigned_request J sp tok) d n w"
      unfolding M by (rule fetchWithRetry_settles)
    with r have "fst (fetchWithRetry url (presigned_request J sp tok) f MAX_RETRIES d w) = Inr r \<and>
        json_url r = Inr None"
      by simp
    from returned [OF this] show ?thesis
      unfolding eq by (simp add: trace_nth_attempt)
  qed
  show ?thesis
  proof (intro conjI allI impI)
    fix n assume "n < 3"
      and "(\<forall>i < n. failed (nth_attempt f url init d i w)) \<and> \<not> failed (nth_attempt f url init d n w)"
    then show "fetchWithRetry url init f MAX_RETRIES d w = nth_attempt f url init d n w"
      using settle by blast
  next
    assume "\<forall>i < 3. failed (nth_attempt f url init d i w)"
    then show "\<exists>r. fst (nth_attempt f url init d 2 w) = Inr r \<and> \<not> ok r \<and>
            fetchWithRetry url init f MAX_RETRIES d w =
              (Inl (Error (''Request failed: '' @ string_of_nat (status r) @ '' '' @ statusText r)),
               snd (nth_attempt f url init d 2 w))"
      by (rule exhaust)
  next
    fix n show "trace (snd (nth_attempt f url init d n w)) = trace w @ attempts url init d (Suc n)"
      by (rule trace_nth_attempt)
  next
    show "\<exists>n. 1 \<le> n \<and> n \<le> 3 \<and>
       trace (snd (fetchWithRetry url init f MAX_RETRIES d w)) = trace w @ attempts url init d n"
      by (rule fetchWithRetry_at_most_3)
  next
    show "snd (getPresignedUrl J url sp tok f MAX_RETRIES d w) =
        snd (fetchWithRetry url (presigned_request J sp tok) f MAX_RETRIES d w)"
      by (rule getPresignedUrl_world)
  next
    fix e assume "fst (fetchWithRetry url (presigned_request J sp tok) f MAX_RETRIES d w) = Inl e"
    then show "fst (getPresignedUrl J url sp tok f MAX_RETRIES d w) = Inl e"
      by (rule getPresignedUrl_failure)
  next
    show "snd (putPayload url pl f MAX_RETRIES d w) =
        snd (fetchWithRetry url (put_request pl) f MAX_RETRIES d w)"
      by (rule putPayload_world)
  next
    fix e assume "fst (fetchWithRetry url (put_request pl) f MAX_RETRIES d w) = Inl e"
    then show "fst (putPayload url pl f MAX_RETRIES d w) = Inl e"
      by (rule putPayload_failure)
  next
    fix r
    assume "fst (call_fetcher f url (presigned_request J sp tok) w) = Inr r \<and> ok r \<and> json_url r = Inr None"
    from missing [OF this]
    show "getPresignedUrl J url sp tok f MAX_RETRIES d w =
          (Inl (Error missing_url_message), snd (call_fetcher f url (presigned_request J sp tok) w))"
      and "trace (snd (getPresignedUrl J url sp tok f MAX_RETRIES d w)) =
          trace w @ [Fetch url (presigned_request J sp tok)]"
      by blast+
  next
    fix r
    assume "fst (fetchWithRetry url (presigned_request J sp tok) f MAX_RETRIES d w) = Inr r \<and>
        json_url r = Inr None"
    then show "getPresignedUrl J url sp tok f MAX_RETRIES d w =
          (Inl (Error ''Presigned URL response missing 'url' field''),
           snd (fetchWithRetry url (presigned_request J sp tok) f MAX_RETRIES d w))"
      by (rule returned)
  next
    fix n r
    assume "n < 3 \<and> (\<forall>i < n. failed (nth_attempt f url (presigned_request J sp tok) d i w)) \<and>
        fst (nth_attempt f url (presigned_request J sp tok) d n w) = Inr r \<and> ok r \<and>
        json_url r = Inr None"
    from after [OF this]
    show "getPresignedUrl J url sp tok f MAX_RETRIES d w =
          (Inl (Error ''Presigned URL response missing 'url' field''),
           snd (nth_attempt f url (presigned_request J sp tok) d n w))"
      and "trace (snd (getPresignedUrl J url sp tok f MAX_RETRIES d w)) =
          trace w @ attempts url (presigned_request J sp tok) d (Suc n)"
      by blast+
  qed
qed

theorem retry_policy_witness:
  "fetchWithRetry ''https://api.test'' (put_request ''{}'') scripted MAX_RETRIES 7
       \<lparr>net = [forbidden, forbidden, forbidden], trace = []\<rparr> =
     (Inl (Error ''Request failed: 403 Forbidden''),
      \<lparr>net = [],
       trace = [Fetch ''https://api.test'' (put_request ''{}''), Delay 7,
                Fetch ''https://api.test'' (put_request ''{}''), Delay 7,
                Fetch ''https://api.test'' (put_request ''{}'')]\<rparr>) \<and>
   fetchWithRetry ''https://api.test'' (put_request ''{}'') scripted MAX_RETRIES 7
       \<lparr>net = [forbidden, ok_with_url], trace = []\<rparr> =
     (ok_with_url,
      \<lparr>net = [],
       trace = [Fetch ''https://api.test'' (put_request ''{}''), Delay 7,
                Fetch ''https://api.test'' (put_request ''{}'')]\<rparr>) \<and>
   getPresignedUrl (\<lambda>p. ''{}'') ''https://api.test'' example_params ''jwt'' scripted MAX_RETRIES 7
       \<lparr>net = [ok_without_url, ok_with_url], trace = []\<rparr> =
     (Inl (Error missing_url_message),
      \<lparr>net = [ok_with_url],
       trace = [Fetch ''https://api.test'' (presigned_request (\<lambda>p. ''{}'') example_params ''jwt'')]\<rparr>) \<and>
   getPresignedUrl (\<lambda>p. ''{}'') ''https://api.test'' example_params ''jwt'' scripted MAX_RETRIES 7
       \<lparr>net = [forbidden, ok_without_url, ok_with_url], trace = []\<rparr> =
     (Inl (Error ''Presigned URL response missing 'url' field''),
      \<lparr>net = [ok_with_url],
       trace = [Fetch ''https://api.test'' (presigned_request (\<lambda>p. ''{}'') example_params ''jwt''), Delay 7,
                Fetch ''https://api.test'' (presigned_request (\<lambda>p. ''{}'') example_params ''jwt'')]\<rparr>)"
proof -
  let ?u = "''https://api.test''" and ?i = "put_request ''{}''"
  let ?w3 = "\<lparr>net = [forbidden, forbidden, forbidden], trace = []\<rparr>"
  let ?w2 = "\<lparr>net = [forbidden, ok_with_url], trace = []\<rparr>"
  let ?w1 = "\<lparr>net = [ok_without_url, ok_with_url], trace = []\<rparr>"
  let ?J = "\<lambda>p::GitHubActionsParams. ''{}''"
  let ?pi = "presigned_request ?J example_params ''jwt''"
  have a0: "nth_attempt scripted ?u ?i 7 0 ?w3 = (forbidden, \<lparr>net = [forbidden, forbidden], trace = [Fetch ?u ?i]\<rparr>)"
    by (simp add: call_fetcher_def scripted_def)
  have a1: "nth_attempt scripted ?u ?i 7 1 ?w3 =
      (forbidden, \<lparr>net = [forbidden], trace = [Fetch ?u ?i, Delay 7, Fetch ?u ?i]\<rparr>)"
    by (simp add: call_fetcher_def scripted_def delay_def)
  have a2: "nth_attempt scripted ?u ?i 7 2 ?w3 =
      (forbidden, \<lparr>net = [], trace = [Fetch ?u ?i, Delay 7, Fetch ?u ?i, Delay 7, Fetch ?u ?i]\<rparr>)"
    by (simp add: call_fetcher_def scripted_def delay_def numeral_2_eq_2)
  have ff: "failed (forbidden, x)" for x :: "(js_exn + Response) list world"
    by (simp add: failed_def forbidden_def ok_def)
  have all3: "\<forall>i < 3. failed (nth_attempt scripted ?u ?i 7 i ?w3)"
    unfolding less_3_cases using a0 a1 a2 ff by simp
  note t3 = retry_policy [of scripted ?u ?i 7 ?w3 ?J example_params "''jwt''" "''{}''"]
  from t3 all3 obtain r where
    r: "fst (nth_attempt scripted ?u ?i 7 2 ?w3) = Inr r"
      "fetchWithRetry ?u ?i scripted MAX_RETRIES 7 ?w3 =
         (Inl (Error (''Request failed: '' @ string_of_nat (status r) @ '' '' @ statusText r)),
          snd (nth_attempt scripted ?u ?i 7 2 ?w3))"
    by blast
  from r(1) have "r = \<lparr>status = 403, statusText = ''Forbidden'', json_url = Inl (Error ''not JSON'')\<rparr>"
    unfolding a2 by (simp add: forbidden_def)
  then have "string_of_nat (status r) = ''403''" "statusText r = ''Forbidden''"
    by (simp_all add: string_of_nat.simps digit_char_def)
  with r(2) have one: "fetchWithRetry ?u ?i scripted MAX_RETRIES 7 ?w3 =
     (Inl (Error ''Request failed: 403 Forbidden''),
      \<lparr>net = [], trace = [Fetch ?u ?i, Delay 7, Fetch ?u ?i, Delay 7, Fetch ?u ?i]\<rparr>)"
    by (simp add: a2)
  have b0: "nth_attempt scripted ?u ?i 7 0 ?w2 = (forbidden, \<lparr>net = [ok_with_url], trace = [Fetch ?u ?i]\<rparr>)"
    by (simp add: call_fetcher_def scripted_def)
  have b1: "nth_attempt scripted ?u ?i 7 1 ?w2 =
      (ok_with_url, \<lparr>net = [], trace = [Fetch ?u ?i, Delay 7, Fetch ?u ?i]\<rparr>)"
    by (simp add: call_fetcher_def scripted_def delay_def)
  have nf: "\<not> failed (ok_with_url, x)" for x :: "(js_exn + Response) list world"
    by (simp add: failed_def ok_with_url_def ok_def)
  note t2 = retry_policy [of scripted ?u ?i 7 ?w2 ?J example_params "''jwt''" "''{}''"]
  have "(1::nat) < 3" by simp
  moreover have "(\<forall>i < 1. failed (nth_attempt scripted ?u ?i 7 i ?w2)) \<and>
      \<not> failed (nth_attempt scripted ?u ?i 7 1 ?w2)"
    using b0 b1 ff nf by simp
  ultimately have "fetchWithRetry ?u ?i scripted MAX_RETRIES 7 ?w2 = nth_attempt scripted ?u ?i 7 1 ?w2"
    using t2 by blast
  then have two: "fetchWithRetry ?u ?i scripted MAX_RETRIES 7 ?w2 =
      (ok_with_url, \<lparr>net = [], trace = [Fetch ?u ?i, Delay 7, Fetch ?u ?i]\<rparr>)"
    by (simp only: b1)
  have c0: "call_fetcher scripted ?u ?pi ?w1 = (ok_without_url, \<lparr>net = [ok_with_url], trace = [Fetch ?u ?pi]\<rparr>)"
    by (simp add: call_fetcher_def scripted_def)
  note t1 = retry_policy [of scripted ?u ?i 7 ?w1 ?J example_params "''jwt''" "''{}''"]
  have "fst (call_fetcher scripted ?u ?pi ?w1) = Inr \<lparr>status = 200, statusText = ''OK'', json_url = Inr None\<rparr>
      \<and> ok \<lparr>status = 200, statusText = ''OK'', json_url = Inr None\<rparr>
      \<and> json_url \<lparr>status = 200, statusText = ''OK'', json_url = Inr None\<rparr> = Inr None"
    unfolding c0 by (simp add: ok_without_url_def ok_def)
  with t1 have "getPresignedUrl ?J ?u example_params ''jwt'' scripted MAX_RETRIES 7 ?w1 =
      (Inl (Error missing_url_message), snd (call_fetcher scripted ?u ?pi ?w1))"
    by blast
  then have three: "getPresignedUrl ?J ?u example_params ''jwt'' scripted MAX_RETRIES 7 ?w1 =
      (Inl (Error missing_url_message), \<lparr>net = [ok_with_url], trace = [Fetch ?u ?pi]\<rparr>)"
    by (simp only: c0 snd_conv)
  let ?w4 = "\<lparr>net = [forbidden, ok_without_url, ok_with_url], trace = []\<rparr>"
  have d0: "nth_attempt scripted ?u ?pi 7 0 ?w4 =
      (forbidden, \<lparr>net = [ok_without_url, ok_with_url], trace = [Fetch ?u ?pi]\<rparr>)"
    by (simp add: call_fetcher_def scripted_def)
  have d1: "nth_attempt scripted ?u ?pi 7 1 ?w4 =
      (ok_without_url, \<lparr>net = [ok_with_url], trace = [Fetch ?u ?pi, Delay 7, Fetch ?u ?pi]\<rparr>)"
    by (simp add: call_fetcher_def scripted_def delay_def)
  note t4 = retry_policy [of scripted ?u ?i 7 ?w4 ?J example_params "''jwt''" "''{}''"]
  have "(1::nat) < 3 \<and> (\<forall>i < 1. failed (nth_attempt scripted ?u ?pi 7 i ?w4)) \<and>
      fst (nth_attempt scripted ?u ?pi 7 1 ?w4) = Inr \<lparr>status = 200, statusText = ''OK'', json_url = Inr None\<rparr>
      \<and> ok \<lparr>status = 200, statusText = ''OK'', json_url = Inr None\<rparr>
      \<and> json_url \<lparr>status = 200, statusText = ''OK'', json_url = Inr None\<rparr> = Inr None"
    using d0 ff unfolding d1 by (simp add: ok_without_url_def ok_def)
  with t4 have "getPresignedUrl ?J ?u example_params ''jwt'' scripted MAX_RETRIES 7 ?w4 =
      (Inl (Error ''Presigned URL response missing 'url' field''), snd (nth_attempt scripted ?u ?pi 7 1 ?w4))"
    by blast
  then have four: "getPresignedUrl ?J ?u example_params ''jwt'' scripted MAX_RETRIES 7 ?w4 =
      (Inl (Error ''Presigned URL response missing 'url' field''),
       \<lparr>net = [ok_with_url], trace = [Fetch ?u ?pi, Delay 7, Fetch ?u ?pi]\<rparr>)"
    by (simp only: d1 snd_conv)
  from one two three four show ?thesis by (intro conjI)
qed







section \<open>normalizeAssetName: the two replacements\<close>

lemma not_hex_delims [simp]: "\<not> is_hex CHR ''.''" "\<not> is_hex CHR ''-''" "\<not> is_hex CHR ''/''" "\<not> is_hex CHR ''*''"
  by (simp_all add: is_hex_def)

lemma not_alpha_dot [simp]: "\<not> is_alpha CHR ''.''"
  by (simp add: is_alpha_def)

lemma takeWhile_hex_run:
  "list_all is_hex h \<Longrightarrow> takeWhile is_hex (h @ CHR ''.'' # r) = h"
  by (induction h) auto

lemma dropWhile_hex_run:
  "list_all is_hex h \<Longrightarrow> dropWhile is_hex (h @ CHR ''.'' # r) = CHR ''.'' # r"
  by (induction h) auto

lemma ext_to_end_no_dot: "ext_to_end z \<Longrightarrow> CHR ''.'' \<notin> set (tl z)"
  by (cases z) (auto simp: ext_to_end_def list_all_iff)

lemma dropWhile_before_delim:
  "\<not> is_hex d \<Longrightarrow> \<exists>y. dropWhile is_hex (pre @ d # r) = y @ d # r"
  by (induction pre) auto

lemma hash_match_here:
  assumes "hash_shape base [] d h ext"
  shows "hash_match base = Some (d, CHR ''.'' # ext)"
  using assms
  by (auto simp: hash_shape_def hash_match_def takeWhile_hex_run dropWhile_hex_run ext_to_end_def)

lemma hash_match_not_earlier:
  assumes "hash_shape base (c # pre) d h ext"
  shows "hash_match base = None"
proof -
  from assms have base: "base = c # pre @ d # h @ CHR ''.'' # ext" and d: "\<not> is_hex d"
    by (auto simp: hash_shape_def)
  from dropWhile_before_delim [OF d] obtain y where
    y: "dropWhile is_hex (pre @ d # h @ CHR ''.'' # ext) = y @ d # h @ CHR ''.'' # ext"
    by blast
  have "CHR ''.'' \<in> set (tl (y @ d # h @ CHR ''.'' # ext))"
    by (cases y) auto
  then have "\<not> ext_to_end (dropWhile is_hex (pre @ d # h @ CHR ''.'' # ext))"
    unfolding y using ext_to_end_no_dot by blast
  then show ?thesis by (simp add: base hash_match_def)
qed

lemma hash_shape_tail:
  "hash_shape (c # cs) (c # pre) d h ext \<longleftrightarrow> hash_shape cs pre d h ext"
  by (auto simp: hash_shape_def)

lemma replace_hash_shape:
  "hash_shape base pre d h ext \<Longrightarrow> replace_hash base = pre @ d # CHR ''*'' # CHR ''.'' # ext"
proof (induction pre arbitrary: base)
  case Nil
  from hash_match_here [OF Nil] Nil show ?case
    by (cases base) (auto simp: hash_shape_def)
next
  case (Cons c pre)
  then obtain cs where base: "base = c # cs" by (auto simp: hash_shape_def)
  with Cons.prems have "hash_shape cs pre d h ext" by (simp add: hash_shape_tail)
  from Cons.IH [OF this] hash_match_not_earlier [OF Cons.prems] show ?case
    by (simp add: base)
qed

lemma replace_hash_cases:
  "replace_hash base = base \<or> (\<exists>pre d h ext. hash_shape base pre d h ext)"
proof (induction base)
  case Nil
  then show ?case by simp
next
  case (Cons c cs)
  show ?case
  proof (cases "hash_match (c # cs)")
    case None
    from Cons show ?thesis
    proof
      assume "replace_hash cs = cs"
      with None show ?thesis by simp
    next
      assume "\<exists>pre d h ext. hash_shape cs pre d h ext"
      then obtain pre d h ext where "hash_shape cs pre d h ext" by blast
      then have "hash_shape (c # cs) (c # pre) d h ext" by (simp add: hash_shape_tail)
      then show ?thesis by blast
    qed
  next
    case (Some m)
    then have c: "c = CHR ''-'' \<or> c = CHR ''.''" and len: "8 \<le> length (takeWhile is_hex cs)"
      and e: "ext_to_end (dropWhile is_hex cs)"
      by (auto simp: hash_match_def split: if_splits)
    from e obtain ext where ext: "dropWhile is_hex cs = CHR ''.'' # ext" "ext \<noteq> []" "list_all is_alpha ext"
      by (auto simp: ext_to_end_def split: list.splits)
    have "cs = takeWhile is_hex cs @ CHR ''.'' # ext"
      using takeWhile_dropWhile_id [of is_hex cs] ext(1) by simp
    moreover have "list_all is_hex (takeWhile is_hex cs)"
      by (simp add: list_all_iff) (meson set_takeWhileD)
    ultimately have "hash_shape (c # cs) [] c (takeWhile is_hex cs) ext"
      using c len ext by (simp add: hash_shape_def)
    then show ?thesis by blast
  qed
qed

lemma replace_hash_changes:
  "replace_hash base \<noteq> base \<longleftrightarrow> (\<exists>pre d h ext. hash_shape base pre d h ext)"
proof
  assume "replace_hash base \<noteq> base"
  with replace_hash_cases [of base] show "\<exists>pre d h ext. hash_shape base pre d h ext" by blast
next
  assume "\<exists>pre d h ext. hash_shape base pre d h ext"
  then obtain pre d h ext where s: "hash_shape base pre d h ext" by blast
  then have "length (replace_hash base) < length base"
    by (simp add: replace_hash_shape [OF s]) (simp add: hash_shape_def)
  then show "replace_hash base \<noteq> base" by auto
qed

lemma replace_all_hex_no_run:
  "\<not> has_long_hex_run s \<Longrightarrow> replace_all_hex s = s"
  by (induction s) auto

lemma has_long_hex_run_append: "has_long_hex_run post \<Longrightarrow> has_long_hex_run (pre @ post)"
  by (induction pre) auto

lemma takeWhile_prefix_length: "length (takeWhile P xs) \<le> length (takeWhile P (xs @ ys))"
  by (induction xs) auto

lemma has_long_hex_run_prefix: "has_long_hex_run s \<Longrightarrow> has_long_hex_run (s @ post)"
proof (induction s)
  case Nil
  then show ?case by simp
next
  case (Cons c cs)
  then show ?case
    using takeWhile_prefix_length [of is_hex "c # cs" post] by (auto simp del: takeWhile.simps)
qed

lemma has_long_hex_run_iff:
  "has_long_hex_run s \<longleftrightarrow> (\<exists>pre h post. s = pre @ h @ post \<and> 8 \<le> length h \<and> list_all is_hex h)"
proof
  assume "has_long_hex_run s"
  then show "\<exists>pre h post. s = pre @ h @ post \<and> 8 \<le> length h \<and> list_all is_hex h"
  proof (induction s)
    case Nil
    then show ?case by simp
  next
    case (Cons c cs)
    show ?case
    proof (cases "8 \<le> length (takeWhile is_hex (c # cs))")
      case True
      have "c # cs = [] @ takeWhile is_hex (c # cs) @ dropWhile is_hex (c # cs)"
        by simp
      moreover have "list_all is_hex (takeWhile is_hex (c # cs))"
        unfolding list_all_iff by (meson set_takeWhileD)
      ultimately show ?thesis using True by blast
    next
      case False
      with Cons.prems have "has_long_hex_run cs" by simp
      from Cons.IH [OF this] obtain pre h post where
        "cs = pre @ h @ post" "8 \<le> length h" "list_all is_hex h" by blast
      then have "c # cs = (c # pre) @ h @ post \<and> 8 \<le> length h \<and> list_all is_hex h" by simp
      then show ?thesis by blast
    qed
  qed
next
  assume "\<exists>pre h post. s = pre @ h @ post \<and> 8 \<le> length h \<and> list_all is_hex h"
  then obtain pre h post where s: "s = pre @ h @ post" and h: "8 \<le> length h" "list_all is_hex h"
    by blast
  from h have "takeWhile is_hex h = h" by (simp add: list_all_iff)
  with h(1) have "has_long_hex_run h" by (cases h) auto
  then show "has_long_hex_run s"
    unfolding s by (intro has_long_hex_run_append has_long_hex_run_prefix)
qed

text \<open>A maximal run of eight or more hex digits becomes \<open>*\<close>; the text around it is treated on its own.\<close>

lemma replace_all_hex_maximal_run:
  assumes "8 \<le> length h" and "list_all is_hex h"
    and "post = [] \<or> \<not> is_hex (hd post)"
  shows "pre = [] \<or> \<not> is_hex (last pre) \<Longrightarrow>
     replace_all_hex (pre @ h @ post) = replace_all_hex pre @ CHR ''*'' # replace_all_hex post"
proof (induction pre rule: replace_all_hex.induct)
  case 1
  have tw: "takeWhile is_hex (h @ post) = h" and dw: "dropWhile is_hex (h @ post) = post"
    using assms(2,3) by (cases post; auto simp: list_all_iff takeWhile_append2 dropWhile_append2)+
  obtain c cs where h: "h = c # cs" using assms(1) by (cases h) auto
  have "replace_all_hex ((c # cs) @ post) = CHR ''*'' # replace_all_hex (dropWhile is_hex ((c # cs) @ post))"
    using assms(1) tw by (simp add: h del: takeWhile.simps dropWhile.simps)
  then show ?case using dw by (simp add: h del: dropWhile.simps)
next
  case (2 c cs)
  let ?pre = "c # cs"
  from 2(3) have nh: "\<not> is_hex (last ?pre)" by simp
  have "last ?pre \<in> set ?pre" by (rule last_in_set) simp
  with nh have ex: "\<exists>x \<in> set ?pre. \<not> is_hex x" by blast
  have tw: "takeWhile is_hex (?pre @ h @ post) = takeWhile is_hex ?pre"
    using ex by (metis takeWhile_append1 takeWhile_eq_all_conv append_eq_conv_conj takeWhile_append)
  have dw: "dropWhile is_hex (?pre @ h @ post) = dropWhile is_hex ?pre @ h @ post"
    using ex by (metis dropWhile_append1)
  show ?case
  proof (cases "8 \<le> length (takeWhile is_hex ?pre)")
    case True
    have ne: "dropWhile is_hex ?pre \<noteq> []"
      using ex by (simp add: dropWhile_eq_Nil_conv del: dropWhile.simps) 
    have "last (dropWhile is_hex ?pre) = last ?pre"
      using ne by (metis last_appendR takeWhile_dropWhile_id)
    with nh have "dropWhile is_hex ?pre = [] \<or> \<not> is_hex (last (dropWhile is_hex ?pre))" by simp
    from 2(1) [OF True this]
    have ih: "replace_all_hex (dropWhile is_hex ?pre @ h @ post) =
        replace_all_hex (dropWhile is_hex ?pre) @ CHR ''*'' # replace_all_hex post" .
    have "replace_all_hex (?pre @ h @ post) = CHR ''*'' # replace_all_hex (dropWhile is_hex (?pre @ h @ post))"
      using True tw by (simp del: takeWhile.simps dropWhile.simps)
    moreover have "replace_all_hex ?pre = CHR ''*'' # replace_all_hex (dropWhile is_hex ?pre)"
      using True by (simp del: takeWhile.simps dropWhile.simps)
    ultimately show ?thesis using ih dw by (simp del: takeWhile.simps dropWhile.simps)
  next
    case False
    have "cs = [] \<or> \<not> is_hex (last cs)" using nh by (cases cs) auto
    from 2(2) [OF False this]
    have ih: "replace_all_hex (cs @ h @ post) = replace_all_hex cs @ CHR ''*'' # replace_all_hex post" .
    have "replace_all_hex (?pre @ h @ post) = c # replace_all_hex (cs @ h @ post)"
      using False tw by (simp del: takeWhile.simps dropWhile.simps)
    moreover have "replace_all_hex ?pre = c # replace_all_hex cs"
      using False by (simp del: takeWhile.simps dropWhile.simps)
    ultimately show ?thesis using ih by simp
  qed
qed

lemma replace_all_hex_set: "set (replace_all_hex s) \<subseteq> insert CHR ''*'' (set s)"
proof (induction s rule: replace_all_hex.induct)
  case 1
  then show ?case by simp
next
  case (2 c cs)
  show ?case
  proof (cases "8 \<le> length (takeWhile is_hex (c # cs))")
    case True
    have "set (dropWhile is_hex (c # cs)) \<subseteq> set (c # cs)"
      by (meson set_dropWhileD subsetI)
    with 2(1) [OF True] True show ?thesis
      by (auto simp del: takeWhile.simps dropWhile.simps)
  next
    case False
    with 2(2) [OF False] show ?thesis
      by (auto simp del: takeWhile.simps dropWhile.simps)
  qed
qed

lemma replace_all_hex_same_or_star:
  "replace_all_hex s = s \<or> CHR ''*'' \<in> set (replace_all_hex s)"
proof (induction s rule: replace_all_hex.induct)
  case 1
  then show ?case by simp
next
  case (2 c cs)
  show ?case
  proof (cases "8 \<le> length (takeWhile is_hex (c # cs))")
    case True
    then show ?thesis by (simp del: takeWhile.simps dropWhile.simps)
  next
    case False
    with 2(2) [OF False] show ?thesis
      by (auto simp del: takeWhile.simps dropWhile.simps)
  qed
qed

lemma replace_all_hex_nonempty: "s \<noteq> [] \<Longrightarrow> replace_all_hex s \<noteq> []"
  by (cases s) (auto simp del: takeWhile.simps dropWhile.simps)

section \<open>normalizeAssetName: paths\<close>

lemma last_not_sep: "b \<noteq> [] \<Longrightarrow> CHR ''/'' \<notin> set b \<Longrightarrow> last b \<noteq> CHR ''/''"
  by (metis last_in_set)

lemma join_sep_snoc: "segs \<noteq> [] \<Longrightarrow> join_sep (segs @ [b]) = join_sep segs @ CHR ''/'' # b"
  by (induction segs rule: join_sep.induct) auto

lemma split_sep_no_sep: "CHR ''/'' \<notin> set s \<Longrightarrow> split_sep s = [s]"
  by (induction s) (auto simp: is_sep_def)

lemma split_sep_first: "CHR ''/'' \<notin> set s \<Longrightarrow> split_sep (s @ CHR ''/'' # r) = s # split_sep r"
  by (induction s) (auto simp: is_sep_def)

lemma split_join_sep:
  "segs \<noteq> [] \<Longrightarrow> list_all clean_segment segs \<Longrightarrow> split_sep (join_sep segs) = segs"
  by (induction segs rule: join_sep.induct)
     (auto simp: clean_segment_def split_sep_no_sep split_sep_first)

lemma normalizeString_step_clean:
  "clean_segment s \<Longrightarrow> normalizeString_step a res s = res @ [s]"
  by (simp add: normalizeString_step_def clean_segment_def)

lemma foldl_step_clean:
  "list_all clean_segment segs \<Longrightarrow> foldl (normalizeString_step a) res segs = res @ segs"
  by (induction segs arbitrary: res) (auto simp: normalizeString_step_clean)

lemma join_sep_ends:
  assumes "segs \<noteq> []" and "list_all clean_segment segs"
  shows "join_sep segs \<noteq> []" and "\<not> is_sep (hd (join_sep segs))" and "\<not> is_sep (last (join_sep segs))"
    and "join_sep segs \<noteq> ''.''"
  using assms
proof (induction segs rule: join_sep.induct)
  case 1
  {
    case 1 then show ?case by simp
  next
    case 2 then show ?case by simp
  next
    case 3 then show ?case by simp
  next
    case 4 then show ?case by simp
  }
next
  case (2 s)
  {
    case 1 then show ?case by (simp add: clean_segment_def)
  next
    case 2 then show ?case by (cases s) (auto simp: clean_segment_def is_sep_def)
  next
    case 3 then show ?case
      using last_not_sep [of s] by (auto simp: clean_segment_def is_sep_def)
  next
    case 4 then show ?case by (simp add: clean_segment_def)
  }
next
  case (3 s t ss)
  {
    case 1 then show ?case by simp
  next
    case 2 then show ?case by (cases s) (auto simp: clean_segment_def is_sep_def)
  next
    case 3
    then have "\<not> is_sep (last (join_sep (t # ss)))" and "join_sep (t # ss) \<noteq> []"
      using "3.IH" by simp_all
    then show ?case by simp
  next
    case 4 then show ?case by (cases s) (auto simp: clean_segment_def)
  }
qed

lemma path_normalize_clean:
  assumes "segs \<noteq> []" and "list_all clean_segment segs" and "root = [] \<or> root = ''/''"
  shows "path_normalize (root @ join_sep segs) = root @ join_sep segs"
proof -
  note e = join_sep_ends [OF assms(1,2)]
  from assms(3) show ?thesis
  proof
    assume r: "root = []"
    have "normalizeString (join_sep segs) True = join_sep segs"
      by (simp add: normalizeString_def split_join_sep [OF assms(1,2)] foldl_step_clean [OF assms(2)])
    then show ?thesis using e by (simp add: r path_normalize_def Let_def)
  next
    assume r: "root = ''/''"
    have "split_sep (CHR ''/'' # join_sep segs) = [] # segs"
      by (simp add: is_sep_def split_join_sep [OF assms(1,2)])
    then have "normalizeString (CHR ''/'' # join_sep segs) False = join_sep segs"
      by (simp add: normalizeString_def normalizeString_step_def foldl_step_clean [OF assms(2)])
    then show ?thesis using e by (simp add: r path_normalize_def Let_def is_sep_def)
  qed
qed

lemma path_normalize_double_root:
  assumes "clean_segment b"
  shows "path_normalize (CHR ''/'' # CHR ''/'' # b) = CHR ''/'' # b"
proof -
  have b: "b \<noteq> []" "CHR ''/'' \<notin> set b" using assms by (simp_all add: clean_segment_def)
  have "split_sep (CHR ''/'' # CHR ''/'' # b) = [[], [], b]"
    by (simp add: is_sep_def split_sep_no_sep [OF b(2)])
  then have "normalizeString (CHR ''/'' # CHR ''/'' # b) False = b"
    using assms by (simp add: normalizeString_def normalizeString_step_def clean_segment_def)
  moreover have "\<not> is_sep (last b)" using b last_not_sep [of b] by (auto simp: is_sep_def)
  ultimately show ?thesis using b by (simp add: path_normalize_def Let_def is_sep_def)
qed

lemma dirname_no_separator: "CHR ''/'' \<notin> set b \<Longrightarrow> dirname b = ''.''"
proof -
  assume b: "CHR ''/'' \<notin> set b"
  then have h1: "dropWhile is_sep (rev b) = rev b"
    by (cases "rev b") (auto simp: is_sep_def)
  have h2: "dropWhile (\<lambda>c. \<not> is_sep c) (rev b) = []"
    using b by (auto simp: is_sep_def)
  have "b \<noteq> [] \<Longrightarrow> \<not> is_sep (hd b)" using b by (cases b) (auto simp: is_sep_def)
  then show ?thesis unfolding dirname_def Let_def h1 h2 by simp
qed

lemma dirname_last_segment:
  assumes "b \<noteq> []" and "CHR ''/'' \<notin> set b"
  shows "dirname (dir @ CHR ''/'' # b) =
     (if dir = [] then ''/''
      else if is_sep (hd dir) \<and> length dir = 1 then ''//''
      else dir)"
proof -
  have "\<not> is_sep (hd (rev b))"
    using assms last_not_sep [of b] by (simp add: hd_rev is_sep_def)
  then have h1: "dropWhile is_sep (rev b @ CHR ''/'' # rev dir) = rev b @ CHR ''/'' # rev dir"
    using assms(1) by (cases "rev b") auto
  have h2: "dropWhile (\<lambda>c. \<not> is_sep c) (rev b @ CHR ''/'' # rev dir) = CHR ''/'' # rev dir"
    using assms(2) by (auto simp: dropWhile_append is_sep_def)
  have rv: "rev (dir @ CHR ''/'' # b) = rev b @ CHR ''/'' # rev dir" by simp
  show ?thesis
    unfolding dirname_def Let_def rv h1 h2
    by (cases "dir = []") (simp_all add: is_sep_def)
qed

lemma rejoin_clean:
  assumes root: "root = [] \<or> root = ''/''" and segs: "list_all clean_segment segs"
    and b: "b \<noteq> []" "CHR ''/'' \<notin> set b" and b': "clean_segment b'"
  shows "basename (root @ join_sep (segs @ [b])) = b"
    and "(if dirname (root @ join_sep (segs @ [b])) = ''.'' then b'
          else path_join (dirname (root @ join_sep (segs @ [b]))) b') = root @ join_sep (segs @ [b'])"
proof -
  have nb': "b' \<noteq> []" using b' by (simp add: clean_segment_def)
  show "basename (root @ join_sep (segs @ [b])) = b"
  proof (cases "segs = []")
    case True
    from root show ?thesis
    proof
      assume "root = []"
      then show ?thesis using True b by (simp add: basename_no_separator)
    next
      assume "root = ''/''"
      then show ?thesis using True basename_last_segment [OF b, of "[]"] by simp
    qed
  next
    case False
    then show ?thesis
      using basename_last_segment [OF b, of "root @ join_sep segs"] by (simp add: join_sep_snoc)
  qed
  show "(if dirname (root @ join_sep (segs @ [b])) = ''.'' then b'
          else path_join (dirname (root @ join_sep (segs @ [b]))) b') = root @ join_sep (segs @ [b'])"
  proof (cases "segs = []")
    case True
    from root show ?thesis
    proof
      assume "root = []"
      then show ?thesis using True b by (simp add: dirname_no_separator)
    next
      assume r: "root = ''/''"
      have "dirname (CHR ''/'' # b) = ''/''"
        using dirname_last_segment [OF b, of "[]"] by simp
      then show ?thesis
        using True r nb' path_normalize_double_root [OF b'] by (simp add: path_join_def)
    qed
  next
    case False
    note e = join_sep_ends [OF False segs]
    let ?dir = "root @ join_sep segs"
    have ne: "?dir \<noteq> []" using e by simp
    have not_root: "\<not> (is_sep (hd ?dir) \<and> length ?dir = 1)"
      using root e by (cases "join_sep segs") auto
    have "dirname (?dir @ CHR ''/'' # b) =
        (if ?dir = [] then ''/'' else if is_sep (hd ?dir) \<and> length ?dir = 1 then ''//'' else ?dir)"
      by (rule dirname_last_segment [OF b])
    then have d: "dirname (?dir @ CHR ''/'' # b) = ?dir"
      using ne not_root by (simp only: if_False)
    have not_dot: "?dir \<noteq> ''.''"
      using root e by auto
    have clean: "list_all clean_segment (segs @ [b'])" using segs b' by simp
    have "path_join ?dir b' = path_normalize (root @ join_sep (segs @ [b']))"
      using e(1) nb' False by (simp add: path_join_def join_sep_snoc)
    also have "\<dots> = root @ join_sep (segs @ [b'])"
      by (rule path_normalize_clean [OF _ clean root]) simp
    finally show ?thesis
      using d not_dot False by (simp add: join_sep_snoc)
  qed
qed

section \<open>normalizeAssetName\<close>

lemma normalizeAssetName_shape:
  assumes "hash_shape (basename name) pre d h ext"
  shows "normalizeAssetName name =
     (if dirname name = ''.'' then pre @ d # ''*.'' @ ext
      else path_join (dirname name) (pre @ d # ''*.'' @ ext))"
proof -
  have "replace_hash (basename name) = pre @ d # ''*.'' @ ext"
    using replace_hash_shape [OF assms] by simp
  moreover have "replace_hash (basename name) \<noteq> basename name"
    using assms replace_hash_changes by blast
  ultimately show ?thesis by (simp add: normalizeAssetName_def Let_def)
qed

lemma normalizeAssetName_fallback:
  assumes "\<nexists>pre d h ext. hash_shape (basename name) pre d h ext"
  shows "normalizeAssetName name =
     (if dirname name = ''.'' then replace_all_hex (basename name)
      else path_join (dirname name) (replace_all_hex (basename name)))"
proof -
  have "replace_hash (basename name) = basename name"
    using assms replace_hash_changes by blast
  then show ?thesis by (simp add: normalizeAssetName_def Let_def)
qed

lemma clean_segment_star:
  assumes "clean_segment b" and "set b' \<subseteq> insert CHR ''*'' (set b)" and "b' \<noteq> []"
    and "b' = b \<or> CHR ''*'' \<in> set b'"
  shows "clean_segment b'"
proof -
  from assms(1,2) have "CHR ''/'' \<notin> set b'" by (auto simp: clean_segment_def)
  moreover have "b' \<noteq> ''.'' \<and> b' \<noteq> ''..''"
    using assms(1,4) by (auto simp: clean_segment_def)
  ultimately show ?thesis using assms(3) by (simp add: clean_segment_def)
qed

lemma normalizeAssetName_clean_shape:
  assumes "root = [] \<or> root = ''/''" and "list_all clean_segment segs" and "clean_segment b"
    and s: "hash_shape b pre d h ext"
  shows "normalizeAssetName (root @ join_sep (segs @ [b])) = root @ join_sep (segs @ [pre @ d # ''*.'' @ ext])"
proof -
  let ?name = "root @ join_sep (segs @ [b])"
  let ?b' = "pre @ d # ''*.'' @ ext"
  from assms(3) have b: "b \<noteq> []" "CHR ''/'' \<notin> set b" by (simp_all add: clean_segment_def)
  from s have "set ?b' \<subseteq> insert CHR ''*'' (set b)" by (auto simp: hash_shape_def)
  then have c: "clean_segment ?b'"
    by (rule clean_segment_star [OF assms(3)]) simp_all
  note r = rejoin_clean [OF assms(1,2) b c]
  from s r(1) have "hash_shape (basename ?name) pre d h ext" by simp
  from normalizeAssetName_shape [OF this]
  have "normalizeAssetName ?name = (if dirname ?name = ''.'' then ?b' else path_join (dirname ?name) ?b')" .
  then show ?thesis unfolding r(2) .
qed

lemma normalizeAssetName_clean_fallback:
  assumes "root = [] \<or> root = ''/''" and "list_all clean_segment segs" and "clean_segment b"
    and s: "\<nexists>pre d h ext. hash_shape b pre d h ext"
  shows "normalizeAssetName (root @ join_sep (segs @ [b])) = root @ join_sep (segs @ [replace_all_hex b])"
proof -
  let ?name = "root @ join_sep (segs @ [b])"
  from assms(3) have b: "b \<noteq> []" "CHR ''/'' \<notin> set b" by (simp_all add: clean_segment_def)
  have c: "clean_segment (replace_all_hex b)"
    using replace_all_hex_set [of b] replace_all_hex_nonempty [OF b(1)] replace_all_hex_same_or_star [of b]
    by (rule clean_segment_star [OF assms(3)])
  note r = rejoin_clean [OF assms(1,2) b c]
  from s r(1) have "\<nexists>pre d h ext. hash_shape (basename ?name) pre d h ext" by simp
  from normalizeAssetName_fallback [OF this]
  have "normalizeAssetName ?name =
      (if dirname ?name = ''.'' then replace_all_hex b else path_join (dirname ?name) (replace_all_hex b))"
    unfolding r(1) .
  then show ?thesis unfolding r(2) .
qed

text \<open>
  Claim C3, as amended. When the base name ends in a delimiter \<open>-\<close> or \<open>.\<close>, a hash of eight or
  more hex digits (either case) and a final extension of \<open>.\<close> and ASCII letters (either
  case), exactly the hash is replaced by \<open>*\<close>; delimiter, extension and the text before
  are kept. When the base name has no such shape, every maximal run of eight or more hex
  digits in it is replaced by \<open>*\<close> (a string without such a run is unchanged). In both
  cases the result is the new base name alone when \<open>dirname\<close> of the path is \<open>.\<close>, and
  \<open>join\<close> of that directory and the new base name otherwise; for a path made of segments
  that are not empty, \<open>.\<close> or \<open>..\<close>, joined by single separators, with or without a
  leading \<open>/\<close>, this keeps the directory prefix as it is.
\<close>

theorem normalizeAssetName_hash:
  "(\<forall>pre d h ext. hash_shape (basename name) pre d h ext \<longrightarrow>
      normalizeAssetName name =
        (if dirname name = ''.'' then pre @ d # ''*.'' @ ext
         else path_join (dirname name) (pre @ d # ''*.'' @ ext))) \<and>
   ((\<nexists>pre d h ext. hash_shape (basename name) pre d h ext) \<longrightarrow>
      normalizeAssetName name =
        (if dirname name = ''.'' then replace_all_hex (basename name)
         else path_join (dirname name) (replace_all_hex (basename name)))) \<and>
   (\<forall>pre h post. 8 \<le> length h \<and> list_all is_hex h \<and> (pre = [] \<or> \<not> is_hex (last pre)) \<and>
        (post = [] \<or> \<not> is_hex (hd post)) \<longrightarrow>
      replace_all_hex (pre @ h @ post) = replace_all_hex pre @ ''*'' @ replace_all_hex post) \<and>
   (\<forall>s. \<not> has_long_hex_run s \<longrightarrow> replace_all_hex s = s) \<and>
   (\<forall>root segs b pre d h ext.
      (root = [] \<or> root = ''/'') \<and> list_all clean_segment segs \<and> clean_segment b \<and>
      hash_shape b pre d h ext \<and> name = root @ join_sep (segs @ [b]) \<longrightarrow>
      normalizeAssetName name = root @ join_sep (segs @ [pre @ d # ''*.'' @ ext])) \<and>
   (\<forall>root segs b.
      (root = [] \<or> root = ''/'') \<and> list_all clean_segment segs \<and> clean_segment b \<and>
      (\<nexists>pre d h ext. hash_shape b pre d h ext) \<and> name = root @ join_sep (segs @ [b]) \<longrightarrow>
      normalizeAssetName name = root @ join_sep (segs @ [replace_all_hex b]))"
proof (intro conjI allI impI)
  fix pre d h ext assume "hash_shape (basename name) pre d h ext"
  then show "normalizeAssetName name =
        (if dirname name = ''.'' then pre @ d # ''*.'' @ ext
         else path_join (dirname name) (pre @ d # ''*.'' @ ext))"
    by (rule normalizeAssetName_shape)
next
  assume "\<nexists>pre d h ext. hash_shape (basename name) pre d h ext"
  then show "normalizeAssetName name =
        (if dirname name = ''.'' then replace_all_hex (basename name)
         else path_join (dirname name) (replace_all_hex (basename name)))"
    by (rule normalizeAssetName_fallback)
next
  fix pre h post
  assume "8 \<le> length h \<and> list_all is_hex h \<and> (pre = [] \<or> \<not> is_hex (last pre)) \<and>
        (post = [] \<or> \<not> is_hex (hd post))"
  then show "replace_all_hex (pre @ h @ post) = replace_all_hex pre @ ''*'' @ replace_all_hex post"
    using replace_all_hex_maximal_run [of h post pre] by simp
next
  fix s assume "\<not> has_long_hex_run s"
  then show "replace_all_hex s = s" by (rule replace_all_hex_no_run)
next
  fix root segs b pre d h ext
  assume "(root = [] \<or> root = ''/'') \<and> list_all clean_segment segs \<and> clean_segment b \<and>
      hash_shape b pre d h ext \<and> name = root @ join_sep (segs @ [b])"
  then show "normalizeAssetName name = root @ join_sep (segs @ [pre @ d # ''*.'' @ ext])"
    using normalizeAssetName_clean_shape [of root segs b pre d h ext] by blast
next
  fix root segs b
  assume "(root = [] \<or> root = ''/'') \<and> list_all clean_segment segs \<and> clean_segment b \<and>
      (\<nexists>pre d h ext. hash_shape b pre d h ext) \<and> name = root @ join_sep (segs @ [b])"
  then show "normalizeAssetName name = root @ join_sep (segs @ [replace_all_hex b])"
    using normalizeAssetName_clean_fallback [of root segs b] by blast
qed

text \<open>
  The claim as stated fails in two ways. An extension in upper case is matched as well
  (the flag \<open>i\<close> covers \<^verbatim>\<open>[a-z]\<close>), so \<open>deadbeef00-abc12345.JS\<close>, which has no delimited
  hash before a lower-case extension, does not get every run replaced: the run
  \<open>deadbeef00\<close> stays. And the directory prefix \<open>./\<close> of \<open>./main-abc12345.js\<close> is dropped.
\<close>

theorem normalizeAssetName_hash_counterexample:
  "\<not> spec_delimited_hash (basename ''deadbeef00-abc12345.JS'') \<and>
   replace_all_hex (basename ''deadbeef00-abc12345.JS'') = ''*-*.JS'' \<and>
   normalizeAssetName ''deadbeef00-abc12345.JS'' = ''deadbeef00-*.JS'' \<and>
   spec_delimited_hash (basename ''./main-abc12345.js'') \<and>
   normalizeAssetName ''./main-abc12345.js'' = ''main-*.js''"
  by code_simp

theorem normalizeAssetName_hash_witness:
  "normalizeAssetName ''dist/assets/main-abc123ef.js'' = ''dist/assets/main-*.js'' \<and>
   normalizeAssetName ''/abcdef0123456789.js'' = ''/*.js''"
proof -
  have shape: "hash_shape ''main-abc123ef.js'' ''main'' CHR ''-'' ''abc123ef'' ''js''"
    by (simp add: hash_shape_def is_hex_def is_alpha_def)
  have clean: "list_all clean_segment [''dist'', ''assets'']" "clean_segment ''main-abc123ef.js''"
    by (simp_all add: clean_segment_def)
  have "([] = [] \<or> [] = ''/'') \<and> list_all clean_segment [''dist'', ''assets''] \<and>
      clean_segment ''main-abc123ef.js'' \<and>
      hash_shape ''main-abc123ef.js'' ''main'' CHR ''-'' ''abc123ef'' ''js'' \<and>
      ''dist/assets/main-abc123ef.js'' = [] @ join_sep ([''dist'', ''assets''] @ [''main-abc123ef.js''])"
    using shape clean by simp
  with normalizeAssetName_hash [of "''dist/assets/main-abc123ef.js''"]
  have "normalizeAssetName ''dist/assets/main-abc123ef.js'' =
      [] @ join_sep ([''dist'', ''assets''] @ [''main'' @ CHR ''-'' # ''*.'' @ ''js''])"
    by blast
  then have one: "normalizeAssetName ''dist/assets/main-abc123ef.js'' = ''dist/assets/main-*.js''"
    by simp
  have "replace_hash ''abcdef0123456789.js'' = ''abcdef0123456789.js''"
    by code_simp
  then have none: "\<nexists>pre d h ext. hash_shape ''abcdef0123456789.js'' pre d h ext"
    using replace_hash_changes [of "''abcdef0123456789.js''"] by blast
  have "(''/'' = [] \<or> ''/'' = ''/'') \<and> list_all clean_segment [] \<and>
      clean_segment ''abcdef0123456789.js'' \<and>
      (\<nexists>pre d h ext. hash_shape ''abcdef0123456789.js'' pre d h ext) \<and>
      ''/abcdef0123456789.js'' = ''/'' @ join_sep ([] @ [''abcdef0123456789.js''])"
    using none by (simp add: clean_segment_def)
  with normalizeAssetName_hash [of "''/abcdef0123456789.js''"]
  have "normalizeAssetName ''/abcdef0123456789.js'' =
      ''/'' @ join_sep ([] @ [replace_all_hex ''abcdef0123456789.js''])"
    by blast
  moreover have "replace_all_hex ''abcdef0123456789.js'' = ''*.js''"
    by code_simp
  ultimately have two: "normalizeAssetName ''/abcdef0123456789.js'' = ''/*.js''"
    by simp
  from one two show ?thesis by (intro conjI)
qed

section \<open>normalizeAssetName: names without a hash\<close>

lemma basename_sublist: "\<exists>A B. name = A @ basename name @ B"
proof -
  define T1 where "T1 = takeWhile is_sep (rev name)"
  define T2 where "T2 = takeWhile (\<lambda>c. \<not> is_sep c) (dropWhile is_sep (rev name))"
  define T3 where "T3 = dropWhile (\<lambda>c. \<not> is_sep c) (dropWhile is_sep (rev name))"
  have "rev name = T1 @ T2 @ T3"
    unfolding T1_def T2_def T3_def by simp
  then have "name = rev (T1 @ T2 @ T3)"
    by (metis rev_rev_ident)
  then have "name = rev T3 @ rev T2 @ rev T1"
    by simp
  moreover have "basename name = rev T2"
    by (simp add: basename_def T2_def)
  ultimately show ?thesis by metis
qed

lemma no_run_in_basename:
  assumes "\<not> has_long_hex_run name"
  shows "\<not> has_long_hex_run (basename name)"
proof
  assume "has_long_hex_run (basename name)"
  moreover obtain A B where "name = A @ basename name @ B"
    using basename_sublist by blast
  ultimately have "has_long_hex_run name"
    by (metis has_long_hex_run_append has_long_hex_run_prefix)
  with assms show False by blast
qed

lemma hash_shape_has_run: "hash_shape b pre d h ext \<Longrightarrow> has_long_hex_run b"
  unfolding has_long_hex_run_iff hash_shape_def
  by (metis append_Cons append_Nil append.assoc)

lemma normalizeAssetName_no_run:
  assumes "\<not> has_long_hex_run (basename name)"
  shows "normalizeAssetName name =
     (if dirname name = ''.'' then basename name else path_join (dirname name) (basename name))"
proof -
  have "\<nexists>pre d h ext. hash_shape (basename name) pre d h ext"
    using assms hash_shape_has_run by blast
  from normalizeAssetName_fallback [OF this] show ?thesis
    by (simp add: replace_all_hex_no_run [OF assms])
qed

text \<open>
  Claim C9, as amended. For a file name in which every run of hex digits is shorter than
  eight characters, the base name is left as it is and the result is the base name alone
  when \<open>dirname\<close> is \<open>.\<close>, and \<open>join\<close> of directory and base name otherwise. The result is
  the input itself when the name has no separator, and when it is made of segments that
  are not empty, \<open>.\<close> or \<open>..\<close>, joined by single separators, with or without a leading \<open>/\<close>.
\<close>

theorem normalizeAssetName_without_hash:
  assumes "\<not> has_long_hex_run name"
  shows "normalizeAssetName name =
           (if dirname name = ''.'' then basename name else path_join (dirname name) (basename name)) \<and>
         (CHR ''/'' \<notin> set name \<longrightarrow> normalizeAssetName name = name) \<and>
         (\<forall>root segs. (root = [] \<or> root = ''/'') \<and> segs \<noteq> [] \<and> list_all clean_segment segs \<and>
              name = root @ join_sep segs \<longrightarrow> normalizeAssetName name = name)"
proof (intro conjI allI impI)
  note nb = no_run_in_basename [OF assms]
  show g: "normalizeAssetName name =
      (if dirname name = ''.'' then basename name else path_join (dirname name) (basename name))"
    by (rule normalizeAssetName_no_run [OF nb])
  {
    assume "CHR ''/'' \<notin> set name"
    then show "normalizeAssetName name = name"
      using g by (simp add: dirname_no_separator basename_no_separator)
  }
  {
    fix root segs
    assume a: "(root = [] \<or> root = ''/'') \<and> segs \<noteq> [] \<and> list_all clean_segment segs \<and>
              name = root @ join_sep segs"
    then obtain ss b where segs: "segs = ss @ [b]"
      by (metis append_butlast_last_id)
    with a have c: "list_all clean_segment ss" "clean_segment b" by simp_all
    then have b: "b \<noteq> []" "CHR ''/'' \<notin> set b" by (simp_all add: clean_segment_def)
    from a have r: "root = [] \<or> root = ''/''" and n: "name = root @ join_sep (ss @ [b])"
      by (simp_all add: segs)
    note j = rejoin_clean [OF r c(1) b c(2)]
    show "normalizeAssetName name = name"
      using g j unfolding n by (simp only:)
  }
qed

text \<open>
  The claim as stated: the input is returned unchanged. \<open>./main.js\<close> has no hex run of
  eight characters, and its directory prefix is dropped.
\<close>

theorem normalizeAssetName_without_hash_counterexample:
  "\<not> has_long_hex_run ''./main.js'' \<and> normalizeAssetName ''./main.js'' = ''main.js''"
  by code_simp

theorem normalizeAssetName_without_hash_witness:
  "\<not> has_long_hex_run ''dist/main-abc.js'' \<and>
   normalizeAssetName ''dist/main-abc.js'' = ''dist/main-abc.js'' \<and>
   \<not> has_long_hex_run ''style.css'' \<and>
   normalizeAssetName ''style.css'' = ''style.css''"
proof -
  have r1: "\<not> has_long_hex_run ''dist/main-abc.js''" and r2: "\<not> has_long_hex_run ''style.css''"
    by code_simp+
  have "([] = [] \<or> [] = ''/'') \<and> [''dist'', ''main-abc.js''] \<noteq> [] \<and>
      list_all clean_segment [''dist'', ''main-abc.js''] \<and>
      ''dist/main-abc.js'' = [] @ join_sep [''dist'', ''main-abc.js'']"
    by (simp add: clean_segment_def)
  with normalizeAssetName_without_hash [OF r1]
  have one: "normalizeAssetName ''dist/main-abc.js'' = ''dist/main-abc.js''"
    by blast
  have "CHR ''/'' \<notin> set ''style.css''" by simp
  with normalizeAssetName_without_hash [OF r2]
  have two: "normalizeAssetName ''style.css'' = ''style.css''"
    by blast
  from r1 one r2 two show ?thesis by (intro conjI)
qed

end
